theory Spec2Isabelle
  imports Main "HOL-Library.AList"
begin

chapter \<open>The command wrapper of Nightwatch's page objects\<close>

text \<open>
  A shallow embedding of \<^verbatim>\<open>lib/page-object/command-wrapper.js\<close>: the resolution of
  element and section names, the ancestor chain, the closure that wraps a command, and the
  registration of commands on a page or section. Each function of the module is a
  definition of the same name. State is passed explicitly; an exception is the left
  summand of the result, and it comes with the state in which it was raised.

  What the model leaves out: the mappings \<^verbatim>\<open>elements\<close>, \<^verbatim>\<open>section\<close> and
  \<^verbatim>\<open>sections\<close> have their own keys only, so on them the \<^verbatim>\<open>in\<close> operator is the
  lookup of a key and never sees a property inherited from \<^verbatim>\<open>Object.prototype\<close> (the
  table \<^verbatim>\<open>methodMap\<close> is modelled with the inherited names); numbers are integers; a
  string is a list of 8-bit characters; a selector function is a function from its
  arguments to a value, without effect on the client.
\<close>

section \<open>JavaScript values\<close>

text \<open>
  The module works on untyped JavaScript
  values. The model keeps the shapes the module distinguishes: the argument list of a
  wrapped command may hold anything, a function is recognised by \<^verbatim>\<open>typeof\<close>, an
  object is a reference into a store.

  A function value is either a function supplied from outside the module (named by a
  number; what it does is given by an environment) or the closure
  \<^verbatim>\<open>callbackWrapper\<close> that \<^verbatim>\<open>makeWrappedCommand\<close> creates, which captures
  \<^verbatim>\<open>prevLocateStrategy\<close> and \<^verbatim>\<open>originalCallback\<close>.
\<close>

type_synonym addr = nat

datatype fn =
    UserFn nat
  | CallbackWrapper string fn

datatype val =
    VUndefined
  | VNull
  | VBool bool
  | VNum int
  | VStr string
  | VFun fn
  | VObj addr
  | VArr "val list"

datatype error =
    Error string
  | TypeError

text \<open>\<^verbatim>\<open>typeof v === 'function'\<close>\<close>

fun is_function :: "val \<Rightarrow> bool" where
  "is_function (VFun f) = True"
| "is_function v = False"

text \<open>Truthiness, as \<^verbatim>\<open>&&\<close>, \<^verbatim>\<open>||\<close> and \<^verbatim>\<open>if\<close> test it.\<close>

fun truthy :: "val \<Rightarrow> bool" where
  "truthy VUndefined = False"
| "truthy VNull = False"
| "truthy (VBool b) = b"
| "truthy (VNum n) = (n \<noteq> 0)"
| "truthy (VStr s) = (s \<noteq> [])"
| "truthy (VFun f) = True"
| "truthy (VObj a) = True"
| "truthy (VArr vs) = True"

subsection \<open>Strings\<close>

text \<open>
  Strings are lists of 8-bit characters. \<^verbatim>\<open>indexOf\<close> and \<^verbatim>\<open>lastIndexOf\<close>
  return \<open>-1\<close> when the character does not occur; \<^verbatim>\<open>substring\<close> clamps both
  indices to the string and swaps them when the first is the larger.
\<close>

fun indexOf :: "string \<Rightarrow> char \<Rightarrow> int" where
  "indexOf [] c = - 1"
| "indexOf (x # xs) c =
     (if x = c then 0
      else (let i = indexOf xs c in if i < 0 then - 1 else i + 1))"

definition lastIndexOf :: "string \<Rightarrow> char \<Rightarrow> int" where
  "lastIndexOf s c =
     (let i = indexOf (rev s) c
      in if i < 0 then - 1 else int (length s) - 1 - i)"

definition substring :: "string \<Rightarrow> int \<Rightarrow> int \<Rightarrow> string" where
  "substring s a b =
     (let len = int (length s);
          a' = min (max a 0) len;
          b' = min (max b 0) len;
          lo = min a' b';
          hi = max a' b'
      in take (nat (hi - lo)) (drop (nat lo) s))"

definition substring_from :: "string \<Rightarrow> int \<Rightarrow> string" where
  "substring_from s a = substring s a (int (length s))"

text \<open>\<^verbatim>\<open>s.split(c)\<close> for a one-character separator; the empty string splits into
  one empty piece.\<close>

fun split :: "char \<Rightarrow> string \<Rightarrow> string list" where
  "split c [] = [[]]"
| "split c (x # xs) =
     (if x = c then [] # split c xs
      else (case split c xs of
              [] \<Rightarrow> [[x]]
            | w # ws \<Rightarrow> (x # w) # ws))"

text \<open>\<^verbatim>\<open>Array.prototype.join\<close> with the default separator, on strings.\<close>

fun join_comma :: "string list \<Rightarrow> string" where
  "join_comma [] = []"
| "join_comma [s] = s"
| "join_comma (s # t # ts) = s @ '','' @ join_comma (t # ts)"

text \<open>
  The regular expression \<^verbatim>\<open>/[^<]+<.*>$/\<close>, as \<^verbatim>\<open>String.prototype.match\<close>
  searches for it: somewhere in the string a character other than \<^verbatim>\<open><\<close> is
  followed by \<^verbatim>\<open><\<close>, after which only characters that \<^verbatim>\<open>.\<close> accepts (no
  line terminator) lead to a \<^verbatim>\<open>>\<close> that ends the string.
\<close>

definition line_terminator :: "char \<Rightarrow> bool" where
  "line_terminator c = (c = CHR 0x0A \<or> c = CHR 0x0D)"

definition dotstar_gt_end :: "string \<Rightarrow> bool" where
  "dotstar_gt_end s =
     (s \<noteq> [] \<and> last s = CHR ''>'' \<and> list_all (\<lambda>c. \<not> line_terminator c) (butlast s))"

fun re_scan :: "bool \<Rightarrow> string \<Rightarrow> bool" where
  "re_scan p [] = False"
| "re_scan p (c # cs) =
     ((p \<and> c = CHR ''<'' \<and> dotstar_gt_end cs) \<or> re_scan (c \<noteq> CHR ''<'') cs)"

definition match_param :: "string \<Rightarrow> bool" where
  "match_param s = re_scan False s"

subsection \<open>Conversion to string\<close>

text \<open>
  \<^verbatim>\<open>ToString\<close> of a value. The text of a function is its source, which never starts
  with the sigil; an object prints as \<^verbatim>\<open>[object Object]\<close>; an array joins its
  elements with commas, printing \<^verbatim>\<open>undefined\<close> and \<^verbatim>\<open>null\<close> as nothing.
\<close>

function digits :: "nat \<Rightarrow> string" where
  "digits n =
     (if n < 10 then [char_of (48 + n)]
      else digits (n div 10) @ [char_of (48 + n mod 10)])"
  by pat_completeness auto
termination
  by (relation "measure id") auto

fun to_str :: "val \<Rightarrow> string" where
  "to_str VUndefined = ''undefined''"
| "to_str VNull = ''null''"
| "to_str (VBool b) = (if b then ''true'' else ''false'')"
| "to_str (VNum n) = (if n < 0 then CHR ''-'' # digits (nat (- n)) else digits (nat n))"
| "to_str (VStr s) = s"
| "to_str (VFun f) = ''function''"
| "to_str (VObj a) = ''[object Object]''"
| "to_str (VArr vs) =
     join_comma (map (\<lambda>v. if v = VUndefined \<or> v = VNull then [] else to_str v) vs)"

text \<open>The method call \<^verbatim>\<open>v.toString()\<close>: \<^verbatim>\<open>undefined\<close> and \<^verbatim>\<open>null\<close> have no
  properties, so the call raises a \<^verbatim>\<open>TypeError\<close>.\<close>

fun toString :: "val \<Rightarrow> error + string" where
  "toString VUndefined = Inl TypeError"
| "toString VNull = Inl TypeError"
| "toString v = Inr (to_str v)"

section \<open>Pages, sections and elements\<close>

text \<open>
  Pages, sections and elements are objects in a store; \<^verbatim>\<open>parent\<close> is a reference,
  so two descriptors have the same parent exactly when the addresses agree. The mappings
  \<^verbatim>\<open>elements\<close>, \<^verbatim>\<open>section\<close> and \<^verbatim>\<open>sections\<close> are association lists in the
  order in which \<^verbatim>\<open>Object.keys\<close> enumerates them; \<^verbatim>\<open>sections\<close> is absent
  (\<open>None\<close>) on an object that has no such property. The property \<^verbatim>\<open>section\<close>
  is the field \<open>section_objs\<close>.

  The commands registered on a page or section are further properties of that object:
  they are kept in \<open>slots\<close>. An entry of the command catalog is a function (named by
  a number) or, under an assertion keyword, a mapping from assertion names to functions.
  \<open>Wrapped parent commandFn commandName isChaiAssertion\<close> is the closure that
  \<^verbatim>\<open>makeWrappedCommand\<close> returns. A slot holds an object that may be callable (a
  wrapped command) and may have properties of its own (the assertions below a keyword).
\<close>

datatype entry =
    EFn nat
  | EGroup "(string \<times> nat) list"

datatype command =
    Wrapped addr entry string bool

datatype slot =
    Slot "command option" "(string \<times> command) list"

record obj =
  name :: string
  selector :: val
  locateStrategy :: string
  parent :: "addr option"
  elements :: "(string \<times> addr) list"
  section_objs :: "(string \<times> addr) list"
  sections :: "(string \<times> addr) list option"
  slots :: "(string \<times> slot) list"

type_synonym store = "addr \<Rightarrow> obj"

subsection \<open>getAncestorsWithElement\<close>

text \<open>
  \<^verbatim>\<open>addElement\<close> puts \<open>e\<close> at the front of the array and goes on with the parent
  while \<^verbatim>\<open>e.parent && e.parent.selector\<close> holds. On a store whose parent links
  run in a circle the recursion does not end; that is the value \<open>None\<close>.
\<close>

partial_function (option) addElement :: "store \<Rightarrow> addr \<Rightarrow> addr list \<Rightarrow> addr list option" where
  "addElement h e elems =
     (case parent (h e) of
        None \<Rightarrow> Some (e # elems)
      | Some p \<Rightarrow>
          if truthy (selector (h p)) then addElement h p (e # elems)
          else Some (e # elems))"

declare addElement.simps [code]

definition getAncestorsWithElement :: "store \<Rightarrow> addr \<Rightarrow> addr list option" where
  "getAncestorsWithElement h element = addElement h element []"


section \<open>The client\<close>

text \<open>
  All pages and sections share one client (\<^verbatim>\<open>parent.client\<close>). The state holds the
  store, the next free address, and the client's fields that this module reads or writes:
  \<^verbatim>\<open>client.locateStrategy\<close>, \<^verbatim>\<open>client.results.errors\<close> and
  \<^verbatim>\<open>client.errors\<close>, together with the command queue of the driver.
\<close>

datatype queued =
    Switch string
  | Command "val list"

record state =
  heap :: store
  next_addr :: addr
  client_locateStrategy :: string
  client_queue :: "queued list"
  client_results_errors :: int
  client_errors :: "string list"

text \<open>
  What a function from outside the module does when called: \<open>selfn\<close> for selector
  functions, which compute a selector from their arguments, \<open>env\<close> for callbacks, which
  run on the client, and \<open>api\<close> for the methods of \<^verbatim>\<open>client.api\<close>.
\<close>

type_synonym selfn = "fn \<Rightarrow> val list \<Rightarrow> val"
type_synonym env = "nat \<Rightarrow> val list \<Rightarrow> state \<Rightarrow> (error + val) \<times> state"
type_synonym api = "string \<Rightarrow> state \<Rightarrow> state"
type_synonym commandFn = "val list \<Rightarrow> state \<Rightarrow> (error + val) \<times> state"

section \<open>Selector resolution\<close>

text \<open>The parameter \<^verbatim>\<open>parent\<close> of the source's functions (the page or section on
  which a command is registered) is \<open>par\<close>, an address.\<close>

text \<open>\<^verbatim>\<open>Object.create(elementObj)\<close>: a new object that reads every property from
  \<open>elementObj\<close>, modelled as a copy at a fresh address.\<close>

definition Object_create :: "addr \<Rightarrow> state \<Rightarrow> addr \<times> state" where
  "Object_create proto st =
     (next_addr st,
      st\<lparr>heap := (heap st)(next_addr st := heap st proto), next_addr := next_addr st + 1\<rparr>)"

definition convertSelector :: "selfn \<Rightarrow> addr \<Rightarrow> val list \<Rightarrow> state \<Rightarrow> (error + addr) \<times> state" where
  "convertSelector selfn elementObj args st =
     (case selector (heap st elementObj) of
        VFun f \<Rightarrow>
          (let (finalObj, st1) = Object_create elementObj st;
               st2 = st1\<lparr>heap := (heap st1)(finalObj := (heap st1 finalObj)\<lparr>selector := selfn f args\<rparr>)\<rparr>;
               st3 = st2\<lparr>heap := (heap st2)(finalObj := (heap st2 finalObj)\<lparr>parent := parent (heap st2 elementObj)\<rparr>)\<rparr>
           in (Inr finalObj, st3))
      | _ \<Rightarrow>
          (Inl (Error (name (heap st elementObj) @
             '' was called as a dynamic page object, but with no function type selector.'')), st))"

definition not_found :: "string \<Rightarrow> string \<Rightarrow> string \<Rightarrow> string list \<Rightarrow> error" where
  "not_found what n parent_name keys =
     Error (n @ '' was not found in \"'' @ parent_name @ ''\". Available '' @ what @ '': '' @ join_comma keys)"

definition getElement :: "selfn \<Rightarrow> addr \<Rightarrow> val \<Rightarrow> state \<Rightarrow> (error + addr) \<times> state" where
  "getElement selfn par elementName st =
     (case elementName of
        VStr s \<Rightarrow>
          (let elementName = substring_from s 1 in
           case map_of (elements (heap st par)) elementName of
             Some e \<Rightarrow> (Inr e, st)
           | None \<Rightarrow>
               if match_param elementName then
                 (let args = split CHR '',''
                        (substring elementName (indexOf elementName CHR ''<'' + 1)
                           (lastIndexOf elementName CHR ''>''));
                      elementName = substring elementName 0 (indexOf elementName CHR ''<'')
                  in case map_of (elements (heap st par)) elementName of
                       Some e \<Rightarrow> convertSelector selfn e (map VStr args) st
                     | None \<Rightarrow>
                         (Inl (not_found ''elements'' elementName (name (heap st par))
                                 (map fst (elements (heap st par)))), st))
               else
                 (Inl (not_found ''elements'' elementName (name (heap st par))
                         (map fst (elements (heap st par)))), st))
      | _ \<Rightarrow> (Inl TypeError, st))"

definition getSection :: "addr \<Rightarrow> val \<Rightarrow> state \<Rightarrow> (error + addr) \<times> state" where
  "getSection par sectionName st =
     (case sectionName of
        VStr s \<Rightarrow>
          (let sectionName = substring_from s 1 in
           case map_of (section_objs (heap st par)) sectionName of
             None \<Rightarrow>
               (case sections (heap st par) of
                  None \<Rightarrow> (Inl TypeError, st)
                | Some m \<Rightarrow>
                    (Inl (not_found ''sections'' sectionName (name (heap st par)) (map fst m)), st))
           | Some sec \<Rightarrow> (Inr sec, st))
      | _ \<Rightarrow> (Inl TypeError, st))"

section \<open>Locate strategy\<close>

definition methodMap :: "(string \<times> string) list" where
  "methodMap =
     [(''xpath'', ''useXpath''), (''css selector'', ''useCss''), (''recursion'', ''useRecursion'')]"

text \<open>
  \<^verbatim>\<open>methodMap\<close> is an object literal, so \<^verbatim>\<open>desiredStrategy in methodMap\<close> holds for
  its three keys and also for the property names that every object inherits from
  \<^verbatim>\<open>Object.prototype\<close>. For one of those, \<^verbatim>\<open>methodMap[desiredStrategy]\<close> is a
  function (or the prototype itself), \<^verbatim>\<open>client.api\<close> has no property of that name,
  and calling \<^verbatim>\<open>undefined\<close> raises a \<^verbatim>\<open>TypeError\<close>. For any other value the
  function does nothing.
\<close>

definition inherited_keys :: "string list" where
  "inherited_keys =
     [''constructor'', ''toString'', ''toLocaleString'', ''valueOf'', ''hasOwnProperty'',
      ''isPrototypeOf'', ''propertyIsEnumerable'', ''__proto__'', ''__defineGetter__'',
      ''__defineSetter__'', ''__lookupGetter__'', ''__lookupSetter__'']"

definition setLocateStrategy :: "api \<Rightarrow> string \<Rightarrow> state \<Rightarrow> (error + unit) \<times> state" where
  "setLocateStrategy api desiredStrategy st =
     (case map_of methodMap desiredStrategy of
        Some m \<Rightarrow> (Inr (), api m st)
      | None \<Rightarrow>
          if desiredStrategy \<in> set inherited_keys then (Inl TypeError, st)
          else (Inr (), st))"

section \<open>The wrapped command\<close>

definition isElementCommand :: "val list \<Rightarrow> error + bool" where
  "isElementCommand args =
     (if length args > 0 then
        (case toString (args ! 0) of
           Inl e \<Rightarrow> Inl e
         | Inr s \<Rightarrow> Inr (indexOf s CHR ''@'' = 0))
      else Inr False)"

text \<open>\<^verbatim>\<open>args[i]\<close>: \<^verbatim>\<open>undefined\<close> outside the array.\<close>

definition arr_get :: "val list \<Rightarrow> int \<Rightarrow> val" where
  "arr_get args i = (if 0 \<le> i \<and> i < int (length args) then args ! nat i else VUndefined)"

definition findCallbackIndex :: "val list \<Rightarrow> int" where
  "findCallbackIndex args =
     (if length args = 0 then - 1
      else
        (let index = int (length args) - 1 in
         if is_function (arr_get args index) then index
         else
           (let index = index - 1 in
            if is_function (arr_get args index) then index
            else - 1)))"

text \<open>
  A call of a function value on the client. \<^verbatim>\<open>callbackWrapper\<close> assigns
  \<^verbatim>\<open>parent.client.locateStrategy = prevLocateStrategy\<close> and then calls
  \<^verbatim>\<open>originalCallback\<close> with its own arguments.
\<close>

fun call_fn :: "env \<Rightarrow> fn \<Rightarrow> val list \<Rightarrow> state \<Rightarrow> (error + val) \<times> state" where
  "call_fn env (UserFn k) args st = env k args st"
| "call_fn env (CallbackWrapper prevLocateStrategy originalCallback) args st =
     call_fn env originalCallback args (st\<lparr>client_locateStrategy := prevLocateStrategy\<rparr>)"

text \<open>
  The end of the block \<^verbatim>\<open>if (elementCommand) { ... }\<close>: the callback that
  \<open>findCallbackIndex\<close> finds among the arguments is replaced by the wrapper around it.
\<close>

definition wrapCallback :: "string \<Rightarrow> val list \<Rightarrow> val list" where
  "wrapCallback prevLocateStrategy args =
     (let callbackIndex = findCallbackIndex args in
      if callbackIndex \<noteq> - 1 then
        (case arr_get args callbackIndex of
           VFun originalCallback \<Rightarrow>
             args[nat callbackIndex := VFun (CallbackWrapper prevLocateStrategy originalCallback)]
         | _ \<Rightarrow> args)
      else args)"

text \<open>
  The block \<^verbatim>\<open>if (elementCommand) { ... }\<close> of the closure: it takes the name off the
  arguments, resolves it, switches the strategy, puts the selector or the chain in front
  and wraps the callback. \<open>None\<close> is the recursion of \<open>addElement\<close> that does not end.
\<close>

definition targetArgs ::
  "api \<Rightarrow> selfn \<Rightarrow> addr \<Rightarrow> string \<Rightarrow> bool \<Rightarrow> string \<Rightarrow> val list \<Rightarrow> state
     \<Rightarrow> ((error + val list) \<times> state) option" where
  "targetArgs api selfn par commandName isChaiAssertion prevLocateStrategy args st =
     (let elementOrSectionName = hd args;
          args = tl args;
          getter = (if isChaiAssertion \<and> commandName = ''section'' then getSection
                    else getElement selfn)
      in case getter par elementOrSectionName st of
           (Inl e, st) \<Rightarrow> Some (Inl e, st)
         | (Inr elementOrSection, st) \<Rightarrow>
             (case getAncestorsWithElement (heap st) elementOrSection of
                None \<Rightarrow> None
              | Some ancestors \<Rightarrow>
                  (let (firstArg, desiredStrategy) =
                         (if length ancestors = 1 then
                            (selector (heap st elementOrSection),
                             locateStrategy (heap st elementOrSection))
                          else (VArr (map VObj ancestors), ''recursion''))
                   in case setLocateStrategy api desiredStrategy st of
                        (Inl e, st) \<Rightarrow> Some (Inl e, st)
                      | (Inr u, st) \<Rightarrow>
                          (let args = firstArg # args
                           in Some (Inr (wrapCallback prevLocateStrategy args), st)))))"

text \<open>
  The closure that \<^verbatim>\<open>makeWrappedCommand(parent, commandFn, commandName,
  isChaiAssertion)\<close> returns, called with \<open>args\<close>. There is no \<^verbatim>\<open>try\<close> in the
  closure: when \<open>commandFn\<close> raises, the exception leaves the closure at once, before
  the strategy is restored.
\<close>

definition makeWrappedCommand ::
  "api \<Rightarrow> selfn \<Rightarrow> addr \<Rightarrow> commandFn \<Rightarrow> string \<Rightarrow> bool \<Rightarrow> val list \<Rightarrow> state
     \<Rightarrow> ((error + val) \<times> state) option" where
  "makeWrappedCommand api selfn par commandFn commandName isChaiAssertion args st =
     (let prevLocateStrategy = client_locateStrategy st in
      case isElementCommand args of
        Inl e \<Rightarrow> Some (Inl e, st)
      | Inr elementCommand \<Rightarrow>
          (case (if elementCommand
                 then targetArgs api selfn par commandName isChaiAssertion prevLocateStrategy args st
                 else Some (Inr args, st)) of
             None \<Rightarrow> None
           | Some (Inl e, st) \<Rightarrow> Some (Inl e, st)
           | Some (Inr args, st) \<Rightarrow>
               (case commandFn args st of
                  (Inl e, st) \<Rightarrow> Some (Inl e, st)
                | (Inr c, st) \<Rightarrow>
                    (case (if elementCommand then setLocateStrategy api prevLocateStrategy st
                           else (Inr (), st)) of
                       (Inl e, st) \<Rightarrow> Some (Inl e, st)
                     | (Inr u, st) \<Rightarrow>
                         Some (Inr (if isChaiAssertion then c else VObj par), st)))))"

section \<open>Registration\<close>

text \<open>
  The object a command is attached to is the page or section itself, or the object under
  one of its assertion keywords (\<^verbatim>\<open>target[commandName]\<close>). \<^verbatim>\<open>target[name]\<close> is
  \<^verbatim>\<open>undefined\<close> when the target has no such property, and an object or a function,
  which \<^verbatim>\<open>if\<close> takes for true, when it has. The properties looked at are the slots:
  a catalog whose names are those of the fields \<^verbatim>\<open>name\<close>, \<^verbatim>\<open>elements\<close> and so on
  is outside the model.
\<close>

datatype target =
    TObj addr
  | TNs addr string

fun target_get :: "state \<Rightarrow> target \<Rightarrow> string \<Rightarrow> slot option" where
  "target_get st (TObj a) n = map_of (slots (heap st a)) n"
| "target_get st (TNs a k) n =
     (case map_of (slots (heap st a)) k of
        None \<Rightarrow> None
      | Some (Slot c props) \<Rightarrow> map_option (\<lambda>w. Slot (Some w) []) (map_of props n))"

fun target_set :: "target \<Rightarrow> string \<Rightarrow> command \<Rightarrow> state \<Rightarrow> state" where
  "target_set (TObj a) n w st =
     st\<lparr>heap := (heap st)(a := (heap st a)\<lparr>slots := AList.update n (Slot (Some w) []) (slots (heap st a))\<rparr>)\<rparr>"
| "target_set (TNs a k) n w st =
     (case map_of (slots (heap st a)) k of
        None \<Rightarrow> st
      | Some (Slot c props) \<Rightarrow>
          st\<lparr>heap := (heap st)(a := (heap st a)\<lparr>slots :=
                AList.update k (Slot c (AList.update n w props)) (slots (heap st a))\<rparr>)\<rparr>)"

text \<open>The text of \<^verbatim>\<open>error.stack\<close>: its first line; the frames that follow depend on
  the engine and are left out.\<close>

definition error_stack :: "string \<Rightarrow> string" where
  "error_stack message = ''Error: '' @ message"

definition addCommand ::
  "target \<Rightarrow> entry \<Rightarrow> string \<Rightarrow> addr \<Rightarrow> bool \<Rightarrow> state \<Rightarrow> (error + command) \<times> state" where
  "addCommand target commandFn commandName par isChaiAssertion st =
     (if target_get st target commandName \<noteq> None then
        (let st = st\<lparr>client_results_errors := client_results_errors st + 1\<rparr>;
             message = ''The command \"'' @ commandName @ ''\" is already defined!'';
             st = st\<lparr>client_errors := client_errors st @ [error_stack message]\<rparr>
         in (Inl (Error message), st))
      else (Inr (Wrapped par commandFn commandName isChaiAssertion), st))"

definition isValidAssertion :: "string \<Rightarrow> bool" where
  "isValidAssertion commandName = (commandName \<in> set [''assert'', ''verify'', ''expect''])"

text \<open>The inner \<^verbatim>\<open>forEach\<close> over the assertions under one keyword.\<close>

fun addAssertions ::
  "addr \<Rightarrow> addr \<Rightarrow> string \<Rightarrow> bool \<Rightarrow> (string \<times> nat) list \<Rightarrow> state \<Rightarrow> (error + unit) \<times> state" where
  "addAssertions par target commandName isChaiAssertion [] st = (Inr (), st)"
| "addAssertions par target commandName isChaiAssertion ((assertionName, f) # rest) st =
     (case addCommand (TNs target commandName) (EFn f) assertionName par isChaiAssertion st of
        (Inl e, st) \<Rightarrow> (Inl e, st)
      | (Inr w, st) \<Rightarrow>
          addAssertions par target commandName isChaiAssertion rest
            (target_set (TNs target commandName) assertionName w st))"

text \<open>\<^verbatim>\<open>target[commandName] = target[commandName] || {}\<close>\<close>

definition ensure_namespace :: "addr \<Rightarrow> string \<Rightarrow> state \<Rightarrow> state" where
  "ensure_namespace target commandName st =
     (case map_of (slots (heap st target)) commandName of
        Some s \<Rightarrow> st
      | None \<Rightarrow>
          st\<lparr>heap := (heap st)(target := (heap st target)\<lparr>slots :=
                AList.update commandName (Slot None []) (slots (heap st target))\<rparr>)\<rparr>)"

text \<open>The outer \<^verbatim>\<open>forEach\<close> over the keys of the catalog; the only call passes the
  page or section itself as \<open>target\<close>.\<close>

fun applyCommandsToTarget ::
  "addr \<Rightarrow> addr \<Rightarrow> (string \<times> entry) list \<Rightarrow> state \<Rightarrow> (error + unit) \<times> state" where
  "applyCommandsToTarget par target [] st = (Inr (), st)"
| "applyCommandsToTarget par target ((commandName, commandFn) # rest) st =
     (if isValidAssertion commandName then
        (let st = ensure_namespace target commandName st;
             isChaiAssertion = (commandName = ''expect'');
             assertions = (case commandFn of EGroup g \<Rightarrow> g | EFn f \<Rightarrow> [])
         in case addAssertions par target commandName isChaiAssertion assertions st of
              (Inl e, st) \<Rightarrow> (Inl e, st)
            | (Inr u, st) \<Rightarrow> applyCommandsToTarget par target rest st)
      else
        (case addCommand (TObj target) commandFn commandName par False st of
           (Inl e, st) \<Rightarrow> (Inl e, st)
         | (Inr w, st) \<Rightarrow>
             applyCommandsToTarget par target rest (target_set (TObj target) commandName w st)))"

definition addWrappedCommands ::
  "addr \<Rightarrow> ((string \<times> entry) list \<Rightarrow> (string \<times> entry) list) \<Rightarrow> state \<Rightarrow> (error + unit) \<times> state" where
  "addWrappedCommands par commandLoader st =
     (let commands = commandLoader [] in applyCommandsToTarget par par commands st)"

text \<open>
  A call of a registered command: the closure runs \<open>makeWrappedCommand\<close> on what it
  captured. A catalog entry that is not a function cannot be applied:
  \<^verbatim>\<open>commandFn.apply\<close> raises a \<^verbatim>\<open>TypeError\<close>.
\<close>

fun call_command ::
  "api \<Rightarrow> selfn \<Rightarrow> (nat \<Rightarrow> commandFn) \<Rightarrow> command \<Rightarrow> val list \<Rightarrow> state
     \<Rightarrow> ((error + val) \<times> state) option" where
  "call_command api selfn cmds (Wrapped par (EFn k) commandName isChaiAssertion) args st =
     makeWrappedCommand api selfn par (cmds k) commandName isChaiAssertion args st"
| "call_command api selfn cmds (Wrapped par (EGroup g) commandName isChaiAssertion) args st =
     makeWrappedCommand api selfn par (\<lambda>args st. (Inl TypeError, st)) commandName isChaiAssertion args st"

section \<open>The driver\<close>

text \<open>
  Modelled from the spec: the methods \<^verbatim>\<open>useXpath\<close>, \<^verbatim>\<open>useCss\<close> and
  \<^verbatim>\<open>useRecursion\<close> of \<^verbatim>\<open>client.api\<close> are not part of this module. The spec
  (sections 4.3 and 5) and the comment in \<^verbatim>\<open>callbackWrapper\<close> say that they are
  added to the command queue, which the driver runs later in strict first-in first-out
  order.
\<close>

definition queue_api :: api where
  "queue_api m st = st\<lparr>client_queue := client_queue st @ [Switch m]\<rparr>"

text \<open>
  Modelled from the spec: a command of the driver, which is not part of this module, is
  appended to the queue with the arguments it was called with, and returns at once.
\<close>

definition queue_command :: commandFn where
  "queue_command args st = (Inr VUndefined, st\<lparr>client_queue := client_queue st @ [Command args]\<rparr>)"

text \<open>
  Modelled from the spec: running one queued entry. A switch sets the locate strategy
  that its method stands for. A command, once done, calls its callback, which by the
  comment in \<^verbatim>\<open>findCallbackIndex\<close> is its last argument or the one before.
\<close>

fun run_queued :: "env \<Rightarrow> queued \<Rightarrow> state \<Rightarrow> state" where
  "run_queued env (Switch m) st =
     (case map_of (map prod.swap methodMap) m of
        Some s \<Rightarrow> st\<lparr>client_locateStrategy := s\<rparr>
      | None \<Rightarrow> st)"
| "run_queued env (Command args) st =
     (case arr_get args (findCallbackIndex args) of
        VFun f \<Rightarrow> snd (call_fn env f [] st)
      | _ \<Rightarrow> st)"

text \<open>
  Modelled from the spec: the driver runs the queue from the front until it is empty.
  A callback may add to the queue, so the run need not end; \<open>None\<close> is the run that
  does not.
\<close>

partial_function (option) drain :: "env \<Rightarrow> state \<Rightarrow> state option" where
  "drain env st =
     (case client_queue st of
        [] \<Rightarrow> Some st
      | item # rest \<Rightarrow> drain env (run_queued env item (st\<lparr>client_queue := rest\<rparr>)))"

declare drain.simps [code]

text \<open>
  Modelled from the spec: the driver after it has run the first \<open>n\<close> entries of its
  queue. What a callback adds to the queue goes behind the entries that are there.
\<close>

fun run_front :: "nat \<Rightarrow> env \<Rightarrow> state \<Rightarrow> state" where
  "run_front 0 env st = st"
| "run_front (Suc n) env st =
     (case client_queue st of
        [] \<Rightarrow> st
      | item # rest \<Rightarrow> run_front n env (run_queued env item (st\<lparr>client_queue := rest\<rparr>)))"

text \<open>A callback environment in which a callback can only add to the queue, as the
  methods of \<^verbatim>\<open>client.api\<close> do; it may do to the locate strategy what it likes.\<close>

definition appending :: "env \<Rightarrow> bool" where
  "appending env =
     (\<forall>k args st. \<exists>new. client_queue (snd (env k args st)) = client_queue st @ new)"

text \<open>A callback environment that leaves the locate strategy and the queue alone.\<close>

definition quiet :: "env \<Rightarrow> bool" where
  "quiet env =
     (\<forall>k args st. client_locateStrategy (snd (env k args st)) = client_locateStrategy st
                 \<and> client_queue (snd (env k args st)) = client_queue st)"

section \<open>Notions used to state the properties\<close>

text \<open>
  The container of \<open>e\<close>: its parent, when \<^verbatim>\<open>e.parent && e.parent.selector\<close> holds.
  A list of objects is linked when each entry is the container of the next.
\<close>

definition container_of :: "store \<Rightarrow> addr \<Rightarrow> addr option" where
  "container_of h e =
     (case parent (h e) of
        None \<Rightarrow> None
      | Some p \<Rightarrow> if truthy (selector (h p)) then Some p else None)"

text \<open>
  The data model has every chain of containers end at an object without a container
  (section 3 of the spec). \<open>ranked h rk\<close> says so: the rank \<open>rk\<close> falls from an object
  to its container.
\<close>

definition ranked :: "store \<Rightarrow> (addr \<Rightarrow> nat) \<Rightarrow> bool" where
  "ranked h rk = (\<forall>a p. container_of h a = Some p \<longrightarrow> rk p < rk a)"

fun linked :: "store \<Rightarrow> addr list \<Rightarrow> bool" where
  "linked h [] = True"
| "linked h [x] = True"
| "linked h (x # y # ys) = (container_of h y = Some x \<and> linked h (y # ys))"

text \<open>
  The message of the error that \<^verbatim>\<open>addCommand\<close> raises, and the bookkeeping on the
  client that goes with it: \<^verbatim>\<open>client.results.errors++\<close> and
  \<^verbatim>\<open>client.errors.push(error.stack)\<close>.
\<close>

definition duplicate_message :: "string \<Rightarrow> string" where
  "duplicate_message commandName = ''The command \"'' @ commandName @ ''\" is already defined!''"

definition record_failure :: "string \<Rightarrow> state \<Rightarrow> state" where
  "record_failure message st =
     st\<lparr>client_results_errors := client_results_errors st + 1,
        client_errors := client_errors st @ [error_stack message]\<rparr>"

section \<open>An example page\<close>

text \<open>
  A page \<open>home\<close> (address 0) with the elements \<open>submitButton\<close> and \<open>row\<close>, the
  latter with a function selector, and a section \<open>s1\<close> that holds a section \<open>s2\<close>
  that holds the element \<open>button\<close>. A second page \<open>grid\<close> (address 6) has element
  names that contain parameter syntax, and a \<^verbatim>\<open>sections\<close> property that differs
  from its \<^verbatim>\<open>section\<close> property.
\<close>

definition blank :: obj where
  "blank = \<lparr>name = [], selector = VUndefined, locateStrategy = [], parent = None,
            elements = [], section_objs = [], sections = None, slots = []\<rparr>"

definition ex_heap :: store where
  "ex_heap = (\<lambda>a. blank)
     (0 := blank\<lparr>name := ''home'', elements := [(''submitButton'', 4), (''row'', 5)],
                 section_objs := [(''s1'', 1)]\<rparr>,
      1 := blank\<lparr>name := ''s1'', selector := VStr ''#s1'', locateStrategy := ''css selector'',
                 parent := Some 0, section_objs := [(''s2'', 2)]\<rparr>,
      2 := blank\<lparr>name := ''s2'', selector := VStr ''#s2'', locateStrategy := ''css selector'',
                 parent := Some 1, elements := [(''button'', 3)]\<rparr>,
      3 := blank\<lparr>name := ''button'', selector := VStr ''#b'', locateStrategy := ''css selector'',
                 parent := Some 2\<rparr>,
      4 := blank\<lparr>name := ''submitButton'', selector := VStr ''#submit'',
                 locateStrategy := ''css selector'', parent := Some 0\<rparr>,
      5 := blank\<lparr>name := ''row'', selector := VFun (UserFn 0), locateStrategy := ''xpath'',
                 parent := Some 0\<rparr>,
      6 := blank\<lparr>name := ''grid'',
                 elements := [(''row'', 5), (''row<a,b>'', 4), (''submitButton'', 4),
                              (''submitButton<x>'', 3), (''cell<1>'', 3)],
                 section_objs := [(''header'', 1)], sections := Some [(''footer'', 2)]\<rparr>)"

definition ex_state :: state where
  "ex_state = \<lparr>heap = ex_heap, next_addr = 7, client_locateStrategy = ''css selector'',
               client_queue = [], client_results_errors = 0, client_errors = []\<rparr>"

text \<open>A selector function that builds an XPath with one condition for each of its
  arguments.\<close>

definition ex_selfn :: selfn where
  "ex_selfn f args = VStr (''//tr'' @ concat (map (\<lambda>a. ''[@'' @ to_str a @ '']'') args))"

text \<open>A callback that reports the locate strategy it sees by pushing it onto
  \<^verbatim>\<open>client.errors\<close>; it leaves the strategy and the queue alone.\<close>

definition ex_env :: env where
  "ex_env k args st =
     (Inr VUndefined, st\<lparr>client_errors := client_errors st @ [client_locateStrategy st]\<rparr>)"

text \<open>A callback that reports the locate strategy it sees and then queues a further
  command, as a callback that calls \<^verbatim>\<open>this.click('body')\<close> does.\<close>

definition ex_queueing :: env where
  "ex_queueing k args st =
     (Inr VUndefined,
      st\<lparr>client_errors := client_errors st @ [client_locateStrategy st],
         client_queue := client_queue st @ [Command [VStr ''body'']]\<rparr>)"

text \<open>The example with \<open>submitButton\<close> given, as its locate strategy, a name that
  every object inherits.\<close>

definition ex_misnamed :: state where
  "ex_misnamed =
     ex_state\<lparr>heap := ex_heap (4 := (ex_heap 4)\<lparr>locateStrategy := ''constructor''\<rparr>)\<rparr>"

text \<open>A command function that raises, as a driver command does without a session.\<close>

definition ex_raising :: commandFn where
  "ex_raising args st = (Inl (Error ''no session''), st)"

text \<open>The page \<open>home\<close> after the catalog \<^verbatim>\<open>{ click: fn }\<close> was registered on it.\<close>

definition ex_registered :: state where
  "ex_registered = snd (addWrappedCommands 0 (\<lambda>commands. [(''click'', EFn 0)]) ex_state)"

text \<open>
  The call \<^verbatim>\<open>s2.waitForElementVisible('@button', 5000, callback, 'shown')\<close> on the
  inner section, and the client once the call has returned.
\<close>

definition ex_args :: "val list" where
  "ex_args = [VStr ''@button'', VNum 5000, VFun (UserFn 7), VStr ''shown'']"

definition ex_queued :: state where
  "ex_queued = ex_state\<lparr>client_queue :=
           [Switch ''useRecursion'',
            Command [VArr [VObj 1, VObj 2, VObj 3], VNum 5000,
                     VFun (CallbackWrapper ''css selector'' (UserFn 7)), VStr ''shown''],
            Switch ''useCss'']\<rparr>"

section \<open>The ancestor chain\<close>

lemma addElement_unfold:
  "addElement h e acc =
     (case container_of h e of None \<Rightarrow> Some (e # acc) | Some p \<Rightarrow> addElement h p (e # acc))"
  by (subst addElement.simps) (simp add: container_of_def split: option.splits)

lemma linked_snoc:
  "linked h (xs @ [p]) \<Longrightarrow> container_of h e = Some p \<Longrightarrow> linked h (xs @ [p, e])"
  by (induction h xs rule: linked.induct) auto

lemma hd_snoc2: "hd ((xs @ [p]) @ [e]) = hd (xs @ [p])"
  by (cases xs) auto

text \<open>
  With the accumulator generalised: the recursion returns, and what it returns is the
  accumulator with \<open>e\<close> and the containers above \<open>e\<close> put in front. The recursion
  follows the rank \<open>rk\<close>, which falls from an object to its container.
\<close>

lemma addElement_chain:
  assumes rk: "ranked h rk"
  shows "\<exists>pre. addElement h e acc = Some (pre @ e # acc) \<and> linked h (pre @ [e])
           \<and> container_of h (hd (pre @ [e])) = None"
proof (induction e arbitrary: acc rule: measure_induct_rule [where f = rk])
  case (less e)
  show ?case
  proof (cases "container_of h e")
    case None
    then have "addElement h e acc = Some ([] @ e # acc)"
      by (simp add: addElement_unfold)
    with None show ?thesis by force
  next
    case (Some p)
    with rk have "rk p < rk e" by (simp add: ranked_def)
    from less [OF this, of "e # acc"] obtain pre where
      pre: "addElement h p (e # acc) = Some (pre @ p # e # acc)"
           "linked h (pre @ [p])" "container_of h (hd (pre @ [p])) = None"
      by blast
    have "addElement h e acc = Some ((pre @ [p]) @ e # acc)"
      using Some pre(1) by (simp add: addElement_unfold)
    moreover have "linked h ((pre @ [p]) @ [e])"
      using linked_snoc [OF pre(2) Some] by simp
    moreover have "container_of h (hd ((pre @ [p]) @ [e])) = None"
      using pre(3) by (simp only: hd_snoc2)
    ultimately show ?thesis by blast
  qed
qed

text \<open>Without any assumption on the store: whatever the recursion returns has this
  shape. Induction on the recursion itself.\<close>

lemma addElement_returned:
  assumes "addElement h e acc = Some r"
  shows "\<exists>pre. r = pre @ e # acc \<and> linked h (pre @ [e])
           \<and> container_of h (hd (pre @ [e])) = None"
proof (rule addElement.raw_induct
         [where P = "\<lambda>h e acc r. \<exists>pre. r = pre @ e # acc \<and> linked h (pre @ [e])
                        \<and> container_of h (hd (pre @ [e])) = None", OF _ assms],
       goal_cases)
  case (1 f h e acc r)
  show ?case
  proof (cases "container_of h e")
    case None
    with 1(2) have "r = [] @ e # acc"
      by (auto simp: container_of_def split: option.splits if_splits)
    with None show ?thesis by force
  next
    case (Some p)
    with 1(2) have "f h p (e # acc) = Some r"
      by (auto simp: container_of_def split: option.splits if_splits)
    from 1(1) [OF this] obtain pre where
      pre: "r = pre @ p # e # acc" "linked h (pre @ [p])" "container_of h (hd (pre @ [p])) = None"
      by blast
    have "r = (pre @ [p]) @ e # acc" using pre(1) by simp
    moreover have "linked h ((pre @ [p]) @ [e])"
      using linked_snoc [OF pre(2) Some] by simp
    moreover have "container_of h (hd ((pre @ [p]) @ [e])) = None"
      using pre(3) by (simp only: hd_snoc2)
    ultimately show ?thesis by blast
  qed
qed

text \<open>
  C6. Whatever \<open>getAncestorsWithElement\<close> returns for a target is an array with at least
  one entry, whose last entry is the target, in which each entry is the container of the
  next (its parent, which has a selector), and whose first entry has no container: the
  chain from the outermost container down to the target. And it does return, for every
  target, on a store whose parent links are well-founded, as the data model has them.
\<close>

theorem ancestors_chain:
  "(\<forall>chain. getAncestorsWithElement h target = Some chain \<longrightarrow>
       1 \<le> length chain \<and> last chain = target
       \<and> linked h chain \<and> container_of h (hd chain) = None)
   \<and> (ranked h rk \<longrightarrow> (\<exists>chain. getAncestorsWithElement h target = Some chain))"
proof -
  have "\<exists>chain. getAncestorsWithElement h target = Some chain" if "ranked h rk"
    using addElement_chain [OF that, of target "[]"]
    by (auto simp: getAncestorsWithElement_def)
  moreover have "1 \<le> length chain \<and> last chain = target
         \<and> linked h chain \<and> container_of h (hd chain) = None"
    if "getAncestorsWithElement h target = Some chain" for chain
    using addElement_returned [of h target "[]" chain] that
    by (auto simp: getAncestorsWithElement_def)
  ultimately show ?thesis by blast
qed

lemma ex_heap_rank: "ranked ex_heap id"
  by (auto simp: ranked_def container_of_def ex_heap_def blank_def split: option.splits if_splits)

lemma ex_ancestors_button: "getAncestorsWithElement ex_heap 3 = Some [1, 2, 3]"
  by (simp add: getAncestorsWithElement_def addElement.simps ex_heap_def blank_def)

text \<open>The button two sections deep: the rank is the address, and the chain is the
  outer section, the inner section, the button.\<close>

theorem ancestors_chain_witness:
  "ranked ex_heap id
   \<and> getAncestorsWithElement ex_heap 3 = Some [1, 2, 3]
   \<and> 1 \<le> length [1, 2, 3 :: nat] \<and> last [1, 2, 3] = (3 :: nat)
   \<and> linked ex_heap [1, 2, 3] \<and> container_of ex_heap (hd [1, 2, 3]) = None"
  using ex_heap_rank ancestors_chain [of ex_heap 3 id] ex_ancestors_button
  by simp

section \<open>Facts about the example\<close>

lemmas ex_eval =
  makeWrappedCommand_def isElementCommand_def targetArgs_def getElement_def getSection_def
  substring_from_def substring_def getAncestorsWithElement_def addElement.simps
  setLocateStrategy_def methodMap_def queue_api_def queue_command_def wrapCallback_def
  findCallbackIndex_def arr_get_def ex_state_def ex_heap_def blank_def Let_def
  inherited_keys_def

lemma ex_heap_simps:
  "ex_heap 0 = blank\<lparr>name := ''home'', elements := [(''submitButton'', 4), (''row'', 5)],
                 section_objs := [(''s1'', 1)]\<rparr>"
  "ex_heap 4 = blank\<lparr>name := ''submitButton'', selector := VStr ''#submit'',
                 locateStrategy := ''css selector'', parent := Some 0\<rparr>"
  "ex_heap 5 = blank\<lparr>name := ''row'', selector := VFun (UserFn 0), locateStrategy := ''xpath'',
                 parent := Some 0\<rparr>"
  "ex_heap 6 = blank\<lparr>name := ''grid'',
                 elements := [(''row'', 5), (''row<a,b>'', 4), (''submitButton'', 4),
                              (''submitButton<x>'', 3), (''cell<1>'', 3)],
                 section_objs := [(''header'', 1)], sections := Some [(''footer'', 2)]\<rparr>"
  by (simp_all add: ex_heap_def)

lemma ex_get_button: "getElement ex_selfn 2 (VStr ''@button'') ex_state = (Inr 3, ex_state)"
  by (simp add: getElement_def substring_from_def substring_def ex_state_def ex_heap_def Let_def)

lemma ex_get_submit: "getElement ex_selfn 0 (VStr ''@submitButton'') ex_state = (Inr 4, ex_state)"
  by (simp add: getElement_def substring_from_def substring_def ex_state_def ex_heap_def Let_def)

lemma ex_ancestors_submit: "getAncestorsWithElement (heap ex_state) 4 = Some [4]"
  by (simp add: getAncestorsWithElement_def addElement.simps ex_state_def ex_heap_def blank_def)

lemma ex_ancestors_nested: "getAncestorsWithElement (heap ex_state) 3 = Some [1, 2, 3]"
  by (simp add: getAncestorsWithElement_def addElement.simps ex_state_def ex_heap_def blank_def)

section \<open>Resolving a name\<close>

subsection \<open>The string operations on a reference\<close>

lemma substring_from_1: "substring_from (c # tok) 1 = tok"
  by (simp add: substring_from_def substring_def Let_def)

lemma indexOf_first: "c \<notin> set n \<Longrightarrow> indexOf (n @ c # r) c = int (length n)"
  by (induction n) (auto simp: Let_def)

lemma lastIndexOf_last: "lastIndexOf (s @ [c]) c = int (length s)"
  by (simp add: lastIndexOf_def)

lemma dotstar_gt_end_snoc:
  "list_all (\<lambda>c. \<not> line_terminator c) x \<Longrightarrow> dotstar_gt_end (x @ ''>'')"
  by (simp add: dotstar_gt_end_def)

lemma re_scan_name:
  "n \<noteq> [] \<Longrightarrow> CHR ''<'' \<notin> set n \<Longrightarrow> dotstar_gt_end r \<Longrightarrow> re_scan p (n @ CHR ''<'' # r)"
proof (induction n arbitrary: p)
  case Nil
  then show ?case by simp
next
  case (Cons a n)
  then show ?case by (cases n) auto
qed

lemma match_param_ref:
  "n \<noteq> [] \<Longrightarrow> CHR ''<'' \<notin> set n \<Longrightarrow> list_all (\<lambda>c. \<not> line_terminator c) x
     \<Longrightarrow> match_param (n @ ''<'' @ x @ ''>'')"
  using re_scan_name [of n "x @ ''>''" False] dotstar_gt_end_snoc [of x]
  by (simp add: match_param_def)

lemma substring_name: "substring (n @ r) 0 (int (length n)) = n"
  by (simp add: substring_def Let_def)

lemma substring_args:
  "substring (n @ ''<'' @ x @ ''>'') (int (length n) + 1) (int (length (n @ ''<'' @ x))) = x"
proof -
  have "nat (int (length n) + 1) = Suc (length n)" by simp
  then show ?thesis by (simp add: substring_def Let_def)
qed

lemma ref_parts:
  assumes "CHR ''<'' \<notin> set n"
  shows "substring (n @ ''<'' @ x @ ''>'') 0 (indexOf (n @ ''<'' @ x @ ''>'') CHR ''<'') = n"
    and "substring (n @ ''<'' @ x @ ''>'') (indexOf (n @ ''<'' @ x @ ''>'') CHR ''<'' + 1)
           (lastIndexOf (n @ ''<'' @ x @ ''>'') CHR ''>'') = x"
proof -
  have i: "indexOf (n @ ''<'' @ x @ ''>'') CHR ''<'' = int (length n)"
    using indexOf_first [OF assms, of "x @ ''>''"] by simp
  have l: "lastIndexOf (n @ ''<'' @ x @ ''>'') CHR ''>'' = int (length (n @ ''<'' @ x))"
    using lastIndexOf_last [of "n @ ''<'' @ x" "CHR ''>''"] by simp
  show "substring (n @ ''<'' @ x @ ''>'') 0 (indexOf (n @ ''<'' @ x @ ''>'') CHR ''<'') = n"
    unfolding i by (rule substring_name)
  show "substring (n @ ''<'' @ x @ ''>'') (indexOf (n @ ''<'' @ x @ ''>'') CHR ''<'' + 1)
           (lastIndexOf (n @ ''<'' @ x @ ''>'') CHR ''>'') = x"
    unfolding i l by (rule substring_args)
qed

text \<open>The pieces of a text joined with commas, none of which holds a comma, are what
  \<^verbatim>\<open>split(',')\<close> gives back.\<close>

lemma split_plain: "c \<notin> set a \<Longrightarrow> split c a = [a]"
  by (induction a) auto

lemma split_piece: "c \<notin> set a \<Longrightarrow> split c (a @ c # r) = a # split c r"
  by (induction a) auto

lemma split_join_comma:
  "args \<noteq> [] \<Longrightarrow> \<forall>a \<in> set args. CHR '','' \<notin> set a
     \<Longrightarrow> split CHR '','' (join_comma args) = args"
proof (induction args rule: join_comma.induct)
  case 1
  then show ?case by simp
next
  case (2 s)
  then show ?case by (simp add: split_plain)
next
  case (3 s t ts)
  then show ?case using split_piece [of "CHR '',''" s "join_comma (t # ts)"] by simp
qed

text \<open>
  A reference \<open>n<x>\<close> that is not itself the name of an element, with \<open>n\<close> the name of
  the element \<open>e\<close>, goes to \<open>convertSelector\<close> with the pieces of \<open>x\<close> between the
  commas.
\<close>

lemma getElement_parameterized:
  assumes "map_of (elements (heap st par)) (n @ ''<'' @ x @ ''>'') = None"
    and "n \<noteq> []" and "CHR ''<'' \<notin> set n" and "list_all (\<lambda>c. \<not> line_terminator c) x"
    and "map_of (elements (heap st par)) n = Some e"
  shows "getElement selfn par (VStr (c # n @ ''<'' @ x @ ''>'')) st
           = convertSelector selfn e (map VStr (split CHR '','' x)) st"
  using assms match_param_ref [of n x] ref_parts [of n x]
  by (simp add: getElement_def substring_from_1 Let_def)

text \<open>A name that is in no way among the elements: the error lists the names that are.\<close>

lemma getElement_not_found:
  assumes "map_of (elements (heap st par)) tok = None" and "\<not> match_param tok"
  shows "getElement selfn par (VStr (c # tok)) st =
           (Inl (Error (tok @ '' was not found in \"'' @ name (heap st par)
                          @ ''\". Available elements: ''
                          @ join_comma (map fst (elements (heap st par))))), st)"
  using assms by (simp add: getElement_def substring_from_1 not_found_def)

subsection \<open>Direct lookup comes first\<close>

text \<open>
  C10. When the \<^verbatim>\<open>elements\<close> mapping of the container has a key equal to the whole
  token after the sigil, \<open>getElement\<close> returns the element under that key and leaves
  the state as it was, whatever the token looks like: no parameter is parsed, no selector
  function is applied and no descriptor is created, also when the token has the form
  \<open>name<...>\<close>. The parameter syntax is looked at only when this lookup fails.
\<close>

theorem direct_lookup_first:
  assumes "map_of (elements (heap st par)) tok = Some e"
  shows "getElement selfn par (VStr (c # tok)) st = (Inr e, st)"
  using assms by (simp add: getElement_def substring_from_1)

text \<open>On the page \<open>grid\<close> the name \<open>cell<1>\<close> is an element of its own.\<close>

theorem direct_lookup_first_witness:
  "map_of (elements (heap ex_state 6)) ''cell<1>'' = Some 3
   \<and> getElement ex_selfn 6 (VStr ''@cell<1>'') ex_state = (Inr 3, ex_state)"
proof -
  have h: "map_of (elements (heap ex_state 6)) ''cell<1>'' = Some 3"
    by (simp add: ex_state_def ex_heap_simps)
  from h direct_lookup_first [OF h, of ex_selfn "CHR ''@''"] show ?thesis by simp
qed

subsection \<open>Parameterized references\<close>

text \<open>
  The claim C4 as stated fails where the whole token \<open>row<a,b>\<close> is itself a key of
  the mapping: the element under that key is returned, and its selector is not the
  result of the selector function of \<open>row\<close>. It also fails where the text between the
  brackets holds a line terminator, which \<^verbatim>\<open>.\<close> in the regular expression does not
  accept: the reference is then reported as not found. And where the reference is parsed
  (on the page \<open>home\<close>), the selector function is called with the pieces as its
  arguments, \<^verbatim>\<open>selector.apply(null, args)\<close>, which is not the call on one array that
  holds them.
\<close>

theorem literal_key_shadows_parameters:
  "map_of (elements (heap ex_state 6)) ''row'' = Some 5
   \<and> selector (heap ex_state 5) = VFun (UserFn 0)
   \<and> ex_selfn (UserFn 0) [VStr ''a'', VStr ''b''] = VStr ''//tr[@a][@b]''
   \<and> getElement ex_selfn 6 (VStr ''@row<a,b>'') ex_state = (Inr 4, ex_state)
   \<and> selector (heap ex_state 4) = VStr ''#submit''
   \<and> map_of (elements (heap ex_state 0)) ''row'' = Some 5
   \<and> getElement ex_selfn 0 (VStr (''@row<a'' @ [CHR 0x0A] @ ''b>'')) ex_state =
       (Inl (Error (''row<a'' @ [CHR 0x0A] @
               ''b> was not found in \"home\". Available elements: submitButton,row'')),
        ex_state)
   \<and> fst (getElement ex_selfn 0 (VStr ''@row<a,b>'') ex_state) = Inr 7
   \<and> selector (heap (snd (getElement ex_selfn 0 (VStr ''@row<a,b>'') ex_state)) 7)
       = VStr ''//tr[@a][@b]''
   \<and> ex_selfn (UserFn 0) [VArr [VStr ''a'', VStr ''b'']] = VStr ''//tr[@a,b]''"
  by (simp add: getElement_def substring_from_1 match_param_def dotstar_gt_end_def
        line_terminator_def not_found_def lastIndexOf_def substring_def convertSelector_def
        Object_create_def Let_def ex_state_def ex_heap_simps ex_selfn_def)

text \<open>
  C4, amended. Let \<open>n\<close> be a non-empty name without \<^verbatim>\<open><\<close>, registered in the
  container for an element \<open>e\<close> whose selector is a function \<open>f\<close>, and let \<open>x\<close> be a
  text without line terminator such that \<open>n<x>\<close> is not itself a key of the
  \<^verbatim>\<open>elements\<close> mapping. Then resolving \<open>@n<x>\<close> yields a new descriptor (at a fresh
  address) whose selector is the result of \<open>f\<close> called with the pieces of \<open>x\<close> between
  commas as its arguments, whose parent is the very parent of \<open>e\<close> (the same reference),
  and which has the name and locate strategy of \<open>e\<close>; no other object of the store
  changes.
\<close>

theorem parameterized_selector:
  assumes "map_of (elements (heap st par)) (n @ ''<'' @ x @ ''>'') = None"
    and "n \<noteq> []" and "CHR ''<'' \<notin> set n" and "list_all (\<lambda>c. \<not> line_terminator c) x"
    and "map_of (elements (heap st par)) n = Some e"
    and "selector (heap st e) = VFun f"
  shows "\<exists>st'. getElement selfn par (VStr (c # n @ ''<'' @ x @ ''>'')) st = (Inr (next_addr st), st')
           \<and> selector (heap st' (next_addr st)) = selfn f (map VStr (split CHR '','' x))
           \<and> parent (heap st' (next_addr st)) = parent (heap st e)
           \<and> name (heap st' (next_addr st)) = name (heap st e)
           \<and> locateStrategy (heap st' (next_addr st)) = locateStrategy (heap st e)
           \<and> (\<forall>a. a \<noteq> next_addr st \<longrightarrow> heap st' a = heap st a)"
proof -
  note eq = getElement_parameterized [OF assms(1-5), of selfn c]
  show ?thesis
    unfolding eq using assms(6)
    by (simp add: convertSelector_def Object_create_def Let_def)
qed

theorem parameterized_selector_witness:
  "map_of (elements (heap ex_state 0)) (''row'' @ ''<'' @ ''a,b'' @ ''>'') = None
   \<and> ''row'' \<noteq> [] \<and> CHR ''<'' \<notin> set ''row'' \<and> list_all (\<lambda>c. \<not> line_terminator c) ''a,b''
   \<and> map_of (elements (heap ex_state 0)) ''row'' = Some 5
   \<and> selector (heap ex_state 5) = VFun (UserFn 0)
   \<and> (\<exists>st'. getElement ex_selfn 0 (VStr ''@row<a,b>'') ex_state = (Inr 7, st')
         \<and> selector (heap st' 7) = ex_selfn (UserFn 0) [VStr ''a'', VStr ''b'']
         \<and> parent (heap st' 7) = parent (heap ex_state 5))"
proof -
  have 1: "map_of (elements (heap ex_state 0)) (''row'' @ ''<'' @ ''a,b'' @ ''>'') = None"
    by (simp add: ex_state_def ex_heap_simps)
  have 2: "''row'' \<noteq> []" by simp
  have 3: "CHR ''<'' \<notin> set ''row''" by simp
  have 4: "list_all (\<lambda>c. \<not> line_terminator c) ''a,b''" by (simp add: line_terminator_def)
  have 5: "map_of (elements (heap ex_state 0)) ''row'' = Some 5"
    by (simp add: ex_state_def ex_heap_simps)
  have 6: "selector (heap ex_state 5) = VFun (UserFn 0)"
    by (simp add: ex_state_def ex_heap_simps)
  have 7: "next_addr ex_state = 7" by (simp add: ex_state_def)
  have 8: "split CHR '','' ''a,b'' = [''a'', ''b'']" by simp
  from parameterized_selector [OF 1 2 3 4 5 6, of ex_selfn "CHR ''@''"]
  have "\<exists>st'. getElement ex_selfn 0 (VStr ''@row<a,b>'') ex_state = (Inr 7, st')
         \<and> selector (heap st' 7) = ex_selfn (UserFn 0) [VStr ''a'', VStr ''b'']
         \<and> parent (heap st' 7) = parent (heap ex_state 5)"
    unfolding 7 8 by auto
  with 1 2 3 4 5 6 show ?thesis by blast
qed

text \<open>
  The claim C5 as stated fails in the same two places: \<open>submitButton\<close> has a selector
  that is no function, yet \<open>@submitButton<x>\<close> resolves without error on a page where
  \<open>submitButton<x>\<close> is itself a key; and with a line terminator between the brackets
  the error is the one for a name that was not found.
\<close>

theorem literal_key_avoids_rejection:
  "map_of (elements (heap ex_state 6)) ''submitButton'' = Some 4
   \<and> \<not> is_function (selector (heap ex_state 4))
   \<and> getElement ex_selfn 6 (VStr ''@submitButton<x>'') ex_state = (Inr 3, ex_state)
   \<and> map_of (elements (heap ex_state 0)) ''submitButton'' = Some 4
   \<and> getElement ex_selfn 0 (VStr (''@submitButton<'' @ [CHR 0x0D] @ ''>'')) ex_state =
       (Inl (Error (''submitButton<'' @ [CHR 0x0D] @
               ''> was not found in \"home\". Available elements: submitButton,row'')),
        ex_state)"
  by (simp add: getElement_def substring_from_1 match_param_def dotstar_gt_end_def
        line_terminator_def not_found_def ex_state_def ex_heap_simps)

text \<open>
  C5, amended. Let \<open>n\<close> be a non-empty name without \<^verbatim>\<open><\<close>, registered in the
  container for an element \<open>e\<close> whose selector is not a function, and let \<open>x\<close> be a
  text without line terminator such that \<open>n<x>\<close> is not itself a key of the
  \<^verbatim>\<open>elements\<close> mapping. Then resolving \<open>@n<x>\<close> raises, at once, the error
  "\<open>name\<close> was called as a dynamic page object, but with no function type selector.", and
  the state is what it was before: no field of \<open>e\<close>, or of any object, has changed.
\<close>

theorem static_selector_rejected:
  assumes "map_of (elements (heap st par)) (n @ ''<'' @ x @ ''>'') = None"
    and "n \<noteq> []" and "CHR ''<'' \<notin> set n" and "list_all (\<lambda>c. \<not> line_terminator c) x"
    and "map_of (elements (heap st par)) n = Some e"
    and "\<not> is_function (selector (heap st e))"
  shows "getElement selfn par (VStr (c # n @ ''<'' @ x @ ''>'')) st =
           (Inl (Error (name (heap st e) @
              '' was called as a dynamic page object, but with no function type selector.'')), st)"
proof -
  note eq = getElement_parameterized [OF assms(1-5), of selfn c]
  show ?thesis
    unfolding eq using assms(6)
    by (cases "selector (heap st e)") (simp_all add: convertSelector_def)
qed

theorem static_selector_rejected_witness:
  "map_of (elements (heap ex_state 0)) (''submitButton'' @ ''<'' @ ''x'' @ ''>'') = None
   \<and> ''submitButton'' \<noteq> [] \<and> CHR ''<'' \<notin> set ''submitButton''
   \<and> list_all (\<lambda>c. \<not> line_terminator c) ''x''
   \<and> map_of (elements (heap ex_state 0)) ''submitButton'' = Some 4
   \<and> \<not> is_function (selector (heap ex_state 4))
   \<and> getElement ex_selfn 0 (VStr ''@submitButton<x>'') ex_state =
       (Inl (Error ''submitButton was called as a dynamic page object, but with no function type selector.''),
        ex_state)"
proof -
  have 1: "map_of (elements (heap ex_state 0)) (''submitButton'' @ ''<'' @ ''x'' @ ''>'') = None"
    by (simp add: ex_state_def ex_heap_simps)
  have 2: "''submitButton'' \<noteq> []" by simp
  have 3: "CHR ''<'' \<notin> set ''submitButton''" by simp
  have 4: "list_all (\<lambda>c. \<not> line_terminator c) ''x''" by (simp add: line_terminator_def)
  have 5: "map_of (elements (heap ex_state 0)) ''submitButton'' = Some 4"
    by (simp add: ex_state_def ex_heap_simps)
  have 6: "\<not> is_function (selector (heap ex_state 4))"
    by (simp add: ex_state_def ex_heap_simps)
  have 7: "name (heap ex_state 4) = ''submitButton''"
    by (simp add: ex_state_def ex_heap_simps)
  from static_selector_rejected [OF 1 2 3 4 5 6, of ex_selfn "CHR ''@''"]
  have "getElement ex_selfn 0 (VStr ''@submitButton<x>'') ex_state =
       (Inl (Error ''submitButton was called as a dynamic page object, but with no function type selector.''),
        ex_state)"
    unfolding 7 by simp
  with 1 2 3 4 5 6 show ?thesis by blast
qed

subsection \<open>Sections\<close>

text \<open>
  C9. For a name that is not in \<^verbatim>\<open>parent.section\<close>, \<open>getSection\<close> builds its message
  from \<^verbatim>\<open>Object.keys(parent.sections)\<close>, another property. On the page \<open>home\<close>,
  which has no \<^verbatim>\<open>sections\<close> property, the lookup of a missing section ends in a
  \<^verbatim>\<open>TypeError\<close>; on the page \<open>grid\<close>, whose \<^verbatim>\<open>section\<close> holds \<open>header\<close> and
  whose \<^verbatim>\<open>sections\<close> holds \<open>footer\<close>, the error for the missing \<open>footer\<close> lists
  \<open>footer\<close> as available and does not list \<open>header\<close>.
\<close>

theorem getSection_missing_name:
  "map_of (section_objs (heap ex_state 0)) ''footer'' = None
   \<and> getSection 0 (VStr ''@footer'') ex_state = (Inl TypeError, ex_state)
   \<and> map_of (section_objs (heap ex_state 6)) ''footer'' = None
   \<and> map fst (section_objs (heap ex_state 6)) = [''header'']
   \<and> getSection 6 (VStr ''@footer'') ex_state =
       (Inl (Error ''footer was not found in \"grid\". Available sections: footer''), ex_state)"
  by (simp add: getSection_def substring_from_1 not_found_def ex_state_def ex_heap_simps blank_def)

section \<open>Calls of a wrapped command\<close>

subsection \<open>The callback scan\<close>

text \<open>The scan returns \<open>-1\<close> or the index of a function among the last two arguments.\<close>

lemma findCallbackIndex_cases:
  "findCallbackIndex a = - 1
   \<or> (0 \<le> findCallbackIndex a \<and> findCallbackIndex a < int (length a)
       \<and> int (length a) - 2 \<le> findCallbackIndex a
       \<and> (\<exists>f. a ! nat (findCallbackIndex a) = VFun f))"
proof -
  have fn: "\<And>v. is_function v \<Longrightarrow> \<exists>f. v = VFun f"
    by (case_tac v) auto
  show ?thesis
    by (auto simp: findCallbackIndex_def arr_get_def Let_def dest!: fn split: if_splits)
qed

text \<open>A function in last position is found there; a function in the position before
  is found when the last argument is none.\<close>

lemma findCallbackIndex_last:
  assumes "a \<noteq> []" and "last a = VFun f"
  shows "findCallbackIndex a = int (length a) - 1"
proof -
  have "a ! (length a - 1) = VFun f" using assms by (simp add: last_conv_nth)
  moreover have "nat (int (length a) - 1) = length a - 1" by simp
  ultimately show ?thesis
    using assms(1) by (simp add: findCallbackIndex_def arr_get_def Let_def)
qed

lemma findCallbackIndex_before_last:
  assumes "2 \<le> length a" and "\<not> is_function (last a)" and "a ! (length a - 2) = VFun f"
  shows "findCallbackIndex a = int (length a) - 2"
proof -
  have ne: "a \<noteq> []" using assms(1) by auto
  have l: "a ! (length a - 1) = last a" using ne by (simp add: last_conv_nth)
  have n1: "nat (int (length a) - 1) = length a - 1" by simp
  have n2: "nat (int (length a) - 2) = length a - 2" by simp
  have f: "is_function (a ! (length a - 2))" using assms(3) by simp
  show ?thesis
    using assms(1,2) ne l f by (simp add: findCallbackIndex_def arr_get_def Let_def n1 n2)
qed

lemma wrapCallback_none: "findCallbackIndex a = - 1 \<Longrightarrow> wrapCallback p a = a"
  by (simp add: wrapCallback_def)

lemma wrapCallback_found:
  assumes "findCallbackIndex a = int j" and "a ! j = VFun f"
  shows "wrapCallback p a = a[j := VFun (CallbackWrapper p f)]"
proof -
  from findCallbackIndex_cases [of a] assms(1) have "j < length a" by auto
  with assms show ?thesis
    by (simp add: wrapCallback_def arr_get_def)
qed

lemma length_wrapCallback [simp]: "length (wrapCallback p a) = length a"
  using findCallbackIndex_cases [of a]
  by (auto simp: wrapCallback_def Let_def split: val.splits)

lemma wrapCallback_last:
  assumes "a \<noteq> []" and "last a = VFun f"
  shows "last (wrapCallback p a) = VFun (CallbackWrapper p f)"
proof -
  have i: "findCallbackIndex a = int (length a - 1)"
    using findCallbackIndex_last [OF assms] assms(1) by (cases a) auto
  have n: "a ! (length a - 1) = VFun f" using assms by (simp add: last_conv_nth)
  have "wrapCallback p a = a[length a - 1 := VFun (CallbackWrapper p f)]"
    by (rule wrapCallback_found [OF i n])
  then show ?thesis
    using assms(1) by (simp add: last_conv_nth)
qed

lemma wrapCallback_before_last:
  assumes "2 \<le> length a" and "\<not> is_function (last a)" and "a ! (length a - 2) = VFun f"
  shows "wrapCallback p a ! (length a - 2) = VFun (CallbackWrapper p f)"
proof -
  have i: "findCallbackIndex a = int (length a - 2)"
    using findCallbackIndex_before_last [OF assms] assms(1) by simp
  have "wrapCallback p a = a[length a - 2 := VFun (CallbackWrapper p f)]"
    by (rule wrapCallback_found [OF i assms(3)])
  then show ?thesis using assms(1) by simp
qed

text \<open>Every argument is passed on as it is, or is a function and is replaced by the
  wrapper around it.\<close>

lemma wrapCallback_nth:
  assumes "i < length a"
  shows "wrapCallback p a ! i = a ! i
         \<or> (\<exists>f. a ! i = VFun f \<and> wrapCallback p a ! i = VFun (CallbackWrapper p f))"
proof (cases "findCallbackIndex a = - 1")
  case True
  then show ?thesis by (simp add: wrapCallback_none)
next
  case False
  with findCallbackIndex_cases [of a] obtain f where
    r: "0 \<le> findCallbackIndex a" and f: "a ! nat (findCallbackIndex a) = VFun f"
    by auto
  define j where "j = nat (findCallbackIndex a)"
  have ij: "findCallbackIndex a = int j" using r by (simp add: j_def)
  have w: "wrapCallback p a = a[j := VFun (CallbackWrapper p f)]"
    using wrapCallback_found [OF ij] f by (simp add: j_def)
  show ?thesis
  proof (cases "i = j")
    case True
    then show ?thesis using w f assms by (simp add: j_def)
  next
    case False
    then show ?thesis using w by simp
  qed
qed

text \<open>A first argument that is no function is never taken for the callback.\<close>

lemma hd_wrapCallback:
  assumes "\<not> is_function v"
  shows "hd (wrapCallback p (v # rest)) = v"
proof -
  from wrapCallback_nth [of 0 "v # rest" p] assms
  have "wrapCallback p (v # rest) ! 0 = v" by auto
  moreover have "wrapCallback p (v # rest) \<noteq> []"
    using length_wrapCallback [of p "v # rest"] by (metis length_0_conv list.distinct(1))
  ultimately show ?thesis by (simp add: hd_conv_nth)
qed

text \<open>The sigil-prefixed first argument is no function.\<close>

lemma sigil_not_function:
  assumes "isElementCommand args = Inr True"
  shows "\<exists>a rest. args = a # rest \<and> \<not> is_function a"
proof (cases args)
  case Nil
  with assms show ?thesis by (simp add: isElementCommand_def)
next
  case (Cons a rest)
  with assms have "\<not> is_function a"
    by (cases a) (auto simp: isElementCommand_def)
  with Cons show ?thesis by simp
qed

subsection \<open>Switching the strategy\<close>

text \<open>The names of \<^verbatim>\<open>methodMap\<close> itself are not among the inherited ones. So
  \<open>setLocateStrategy\<close> calls the driver's switch for one of the three names, raises for
  an inherited name, and does nothing for any other.\<close>

lemma methodMap_not_inherited: "s \<in> set inherited_keys \<Longrightarrow> map_of methodMap s = None"
  by (auto simp: inherited_keys_def methodMap_def)

lemma setLocateStrategy_cases:
  "setLocateStrategy api s st =
     (case map_of methodMap s of
        Some m \<Rightarrow> (Inr (), api m st)
      | None \<Rightarrow> if s \<in> set inherited_keys then (Inl TypeError, st) else (Inr (), st))"
  by (simp add: setLocateStrategy_def)

subsection \<open>The two kinds of invocation\<close>

lemma targetArgs_resolved:
  assumes "(if isChai \<and> commandName = ''section'' then getSection else getElement selfn)
             par (hd args) st = (Inr e, st1)"
    and "getAncestorsWithElement (heap st1) e = Some chain"
    and "d = (if length chain = 1 then locateStrategy (heap st1 e) else ''recursion'')"
    and "firstArg = (if length chain = 1 then selector (heap st1 e) else VArr (map VObj chain))"
  shows "targetArgs api selfn par commandName isChai prev args st =
     Some (case map_of methodMap d of
             Some m \<Rightarrow> (Inr (wrapCallback prev (firstArg # tl args)), api m st1)
           | None \<Rightarrow>
               if d \<in> set inherited_keys then (Inl TypeError, st1)
               else (Inr (wrapCallback prev (firstArg # tl args)), st1))"
  using assms
  by (simp add: targetArgs_def Let_def setLocateStrategy_def split: option.splits)

lemma targetArgs_shape:
  assumes "targetArgs api selfn par commandName isChai prev args st = Some (Inr args', st1)"
  shows "\<exists>firstArg. args' = wrapCallback prev (firstArg # tl args)"
  using assms
  by (auto simp: targetArgs_def Let_def split: prod.splits sum.splits option.splits if_splits)

lemma wrapped_targeted:
  assumes "isElementCommand args = Inr True"
    and "targetArgs api selfn par commandName isChai (client_locateStrategy st) args st
           = Some (r, st1)"
  shows "makeWrappedCommand api selfn par commandFn commandName isChai args st =
     Some (case r of
             Inl er \<Rightarrow> (Inl er, st1)
           | Inr args' \<Rightarrow>
               (case commandFn args' st1 of
                  (Inl er, st2) \<Rightarrow> (Inl er, st2)
                | (Inr c, st2) \<Rightarrow>
                    (case map_of methodMap (client_locateStrategy st) of
                       Some m \<Rightarrow> (Inr (if isChai then c else VObj par), api m st2)
                     | None \<Rightarrow>
                         if client_locateStrategy st \<in> set inherited_keys
                         then (Inl TypeError, st2)
                         else (Inr (if isChai then c else VObj par), st2))))"
  using assms
  by (simp add: makeWrappedCommand_def Let_def setLocateStrategy_def
           split: prod.splits sum.splits option.splits)

lemma wrapped_returns:
  assumes "isElementCommand args = Inr True"
    and "makeWrappedCommand api selfn par commandFn commandName isChai args st = Some (Inr v, st')"
    and "map_of methodMap (client_locateStrategy st) = Some m"
  shows "\<exists>args' st1 c st2.
           targetArgs api selfn par commandName isChai (client_locateStrategy st) args st
             = Some (Inr args', st1)
         \<and> commandFn args' st1 = (Inr c, st2)
         \<and> v = (if isChai then c else VObj par)
         \<and> st' = api m st2"
  using assms
  by (auto simp: makeWrappedCommand_def Let_def setLocateStrategy_def
           split: prod.splits sum.splits option.splits if_splits)

subsection \<open>Passthrough\<close>

text \<open>With no argument, or a first argument whose string form does not begin with the
  sigil, the call is no element command, and the underlying function is then called with
  the arguments and the client as they are; nothing is switched or restored.\<close>

lemma isElementCommand_passthrough:
  assumes "args = [] \<or> (\<exists>s. toString (hd args) = Inr s \<and> take 1 s \<noteq> ''@'')"
  shows "isElementCommand args = Inr False"
proof (cases args)
  case Nil
  then show ?thesis by (simp add: isElementCommand_def)
next
  case (Cons a rest)
  with assms obtain s where s: "toString a = Inr s" "take 1 s \<noteq> ''@''" by auto
  have "indexOf s CHR ''@'' \<noteq> 0"
    using s(2) by (cases s) (auto simp: Let_def)
  with Cons s(1) show ?thesis by (simp add: isElementCommand_def)
qed

lemma wrapped_passthrough:
  assumes "isElementCommand args = Inr False"
  shows "makeWrappedCommand api selfn par commandFn commandName isChai args st =
     Some (case commandFn args st of
             (Inl er, st2) \<Rightarrow> (Inl er, st2)
           | (Inr c, st2) \<Rightarrow> (Inr (if isChai then c else VObj par), st2))"
  using assms by (simp add: makeWrappedCommand_def Let_def split: prod.splits sum.splits)

text \<open>
  C7. A call whose first argument is absent or not sigil-prefixed is to call the
  underlying function with the untouched arguments and to leave the locate strategy
  alone (so says the documentation of \<^verbatim>\<open>makeWrappedCommand\<close>). The code fails to
  do so on some of these calls. \<^verbatim>\<open>isElementCommand\<close> calls
  \<^verbatim>\<open>args[0].toString()\<close> unguarded: with a first argument \<^verbatim>\<open>undefined\<close> or
  \<^verbatim>\<open>null\<close>, as in \<^verbatim>\<open>home.pause(undefined, 1000)\<close>, it raises a
  \<^verbatim>\<open>TypeError\<close> and the underlying function is never called. And a first argument
  that is no string but whose string form begins with the sigil, as the array
  \<^verbatim>\<open>['@submitButton']\<close>, is taken for a name; \<^verbatim>\<open>getElement\<close> then calls
  \<^verbatim>\<open>substring\<close> on it, which raises a \<^verbatim>\<open>TypeError\<close> as well.
\<close>

theorem undefined_first_argument:
  "isElementCommand [VUndefined, VNum 1000] = Inl TypeError
   \<and> makeWrappedCommand queue_api ex_selfn 0 queue_command ''pause'' False
        [VUndefined, VNum 1000] ex_state = Some (Inl TypeError, ex_state)
   \<and> makeWrappedCommand queue_api ex_selfn 0 queue_command ''pause'' False
        [VNull] ex_state = Some (Inl TypeError, ex_state)
   \<and> isElementCommand [VArr [VStr ''@submitButton'']] = Inr True
   \<and> makeWrappedCommand queue_api ex_selfn 0 queue_command ''click'' False
        [VArr [VStr ''@submitButton'']] ex_state = Some (Inl TypeError, ex_state)"
  by (simp add: makeWrappedCommand_def isElementCommand_def targetArgs_def getElement_def Let_def)


subsection \<open>First argument and strategy of a targeted call\<close>

text \<open>
  The claim C3 as stated fails for a chain of length 1 when the target's selector is a
  function and the call has at most one further argument: \<open>row\<close> sits directly on the
  page, its selector is the function \<open>UserFn 0\<close>, and \<^verbatim>\<open>home.click('@row')\<close> passes as
  first argument not that selector but the \<^verbatim>\<open>callbackWrapper\<close> around it, since the
  scan for a callback looks at the argument that was just put in front.
\<close>

theorem function_selector_wrapped:
  "getAncestorsWithElement ex_heap 5 = Some [5]
   \<and> selector (ex_heap 5) = VFun (UserFn 0)
   \<and> makeWrappedCommand queue_api ex_selfn 0 queue_command ''click'' False
        [VStr ''@row''] ex_state =
      Some (Inr (VObj 0),
            ex_state\<lparr>client_queue :=
              [Switch ''useXpath'',
               Command [VFun (CallbackWrapper ''css selector'' (UserFn 0))],
               Switch ''useCss'']\<rparr>)"
  by (simp add: ex_eval)

text \<open>
  C3, amended. For every targeted call whose target resolves to \<open>e\<close> with ancestor chain
  \<open>chain\<close>, the desired strategy is the target's own locate strategy when the chain has
  length 1, and \<open>recursion\<close> otherwise. When the desired strategy is a name inherited
  from \<^verbatim>\<open>Object.prototype\<close>, the call raises a \<^verbatim>\<open>TypeError\<close> and the underlying
  function is not called. Otherwise the underlying function is called, on the client
  after the driver's switch for the desired strategy when it is one of \<open>xpath\<close>,
  \<open>css selector\<close> and \<open>recursion\<close>, and on the client as it is when it is any other
  name; when the function raises, so does the call; when it returns, the driver's switch
  for the captured strategy is called in the same way (a \<^verbatim>\<open>TypeError\<close> for an
  inherited name, nothing for another name). The argument list passed is as long as the
  caller's. When the chain has length 1 and the target's selector is not a function, the
  first argument is the target's own selector; when the chain is longer than 1, the first
  argument is the whole chain, an array. Every further argument is the caller's, or the
  wrapper around it when it is a function. (A selector that is a function is put in front
  in the same way, and is then subject to the scan for a callback.)
\<close>

theorem first_argument_and_strategy:
  assumes "isElementCommand args = Inr True"
    and "(if isChai \<and> commandName = ''section'' then getSection else getElement selfn)
           par (hd args) st = (Inr e, st1)"
    and "getAncestorsWithElement (heap st1) e = Some chain"
  shows "(let prev = client_locateStrategy st;
              firstArg = (if length chain = 1 then selector (heap st1 e)
                          else VArr (map VObj chain));
              desiredStrategy = (if length chain = 1 then locateStrategy (heap st1 e)
                                 else ''recursion'');
              passed = wrapCallback prev (firstArg # tl args);
              entered = (case map_of methodMap desiredStrategy of
                           Some m \<Rightarrow> api m st1
                         | None \<Rightarrow> st1)
          in makeWrappedCommand api selfn par commandFn commandName isChai args st =
               Some (if desiredStrategy \<in> set inherited_keys then (Inl TypeError, st1)
                     else
                       (case commandFn passed entered of
                          (Inl er, st2) \<Rightarrow> (Inl er, st2)
                        | (Inr c, st2) \<Rightarrow>
                            (case map_of methodMap prev of
                               Some m \<Rightarrow> (Inr (if isChai then c else VObj par), api m st2)
                             | None \<Rightarrow>
                                 if prev \<in> set inherited_keys then (Inl TypeError, st2)
                                 else (Inr (if isChai then c else VObj par), st2))))
             \<and> length passed = length args
             \<and> (length chain = 1 \<and> \<not> is_function (selector (heap st1 e)) \<longrightarrow>
                   hd passed = selector (heap st1 e))
             \<and> (length chain \<noteq> 1 \<longrightarrow> hd passed = VArr (map VObj chain))
             \<and> (\<forall>i. 1 \<le> i \<and> i < length args \<longrightarrow>
                   passed ! i = args ! i
                   \<or> (\<exists>f. args ! i = VFun f \<and> passed ! i = VFun (CallbackWrapper prev f))))"
proof -
  let ?prev = "client_locateStrategy st"
  let ?firstArg = "if length chain = 1 then selector (heap st1 e) else VArr (map VObj chain)"
  let ?d = "if length chain = 1 then locateStrategy (heap st1 e) else ''recursion''"
  let ?passed = "wrapCallback ?prev (?firstArg # tl args)"
  from sigil_not_function [OF assms(1)] obtain a rest where a: "args = a # rest" by auto
  have len: "length ?passed = length args" using a by simp
  have h1: "hd ?passed = selector (heap st1 e)"
    if "length chain = 1" "\<not> is_function (selector (heap st1 e))"
    using that hd_wrapCallback [of "selector (heap st1 e)"] by simp
  have h2: "hd ?passed = VArr (map VObj chain)" if "length chain \<noteq> 1"
    using that hd_wrapCallback [of "VArr (map VObj chain)"] by simp
  have rest: "?passed ! i = args ! i
              \<or> (\<exists>f. args ! i = VFun f \<and> ?passed ! i = VFun (CallbackWrapper ?prev f))"
    if "1 \<le> i" "i < length args" for i
  proof -
    from that obtain k where k: "i = Suc k" by (cases i) auto
    have "i < length (?firstArg # tl args)" using that(2) a by simp
    from wrapCallback_nth [OF this, of ?prev] show ?thesis
      by (simp add: k a)
  qed
  have run: "makeWrappedCommand api selfn par commandFn commandName isChai args st =
     Some (if ?d \<in> set inherited_keys then (Inl TypeError, st1)
           else
             (case commandFn ?passed
                     (case map_of methodMap ?d of Some m \<Rightarrow> api m st1 | None \<Rightarrow> st1) of
                (Inl er, st2) \<Rightarrow> (Inl er, st2)
              | (Inr c, st2) \<Rightarrow>
                  (case map_of methodMap ?prev of
                     Some m \<Rightarrow> (Inr (if isChai then c else VObj par), api m st2)
                   | None \<Rightarrow>
                       if ?prev \<in> set inherited_keys then (Inl TypeError, st2)
                       else (Inr (if isChai then c else VObj par), st2))))"
  proof (cases "map_of methodMap ?d")
    case None
    from targetArgs_resolved [where api = api and prev = ?prev, OF assms(2,3) refl refl]
    have t: "targetArgs api selfn par commandName isChai ?prev args st =
       Some (if ?d \<in> set inherited_keys then Inl TypeError else Inr ?passed, st1)"
      by (simp only: None option.case if_distrib [of "\<lambda>x. fst x"] split: if_splits) auto
    show ?thesis
      by (simp only: wrapped_targeted [OF assms(1) t] None option.case)
         (simp split: if_splits)
  next
    case (Some m)
    then have ni: "?d \<notin> set inherited_keys"
      using methodMap_not_inherited [of ?d] by auto
    from targetArgs_resolved [where api = api and prev = ?prev, OF assms(2,3) refl refl]
    have t: "targetArgs api selfn par commandName isChai ?prev args st =
       Some (Inr ?passed, api m st1)"
      by (simp only: Some option.case)
    show ?thesis
      by (simp only: wrapped_targeted [OF assms(1) t] Some option.case ni if_False sum.case)
  qed
  show ?thesis
    unfolding Let_def
    using run len h1 h2 rest by blast
qed

text \<open>The button two sections deep, the button directly on the page, and the button
  with a locate strategy that is an inherited name.\<close>

theorem first_argument_and_strategy_witness:
  "isElementCommand [VStr ''@button''] = Inr True
   \<and> getElement ex_selfn 2 (VStr ''@button'') ex_state = (Inr 3, ex_state)
   \<and> getAncestorsWithElement (heap ex_state) 3 = Some [1, 2, 3]
   \<and> makeWrappedCommand queue_api ex_selfn 2 queue_command ''click'' False
        [VStr ''@button''] ex_state =
       Some (Inr (VObj 2),
             ex_state\<lparr>client_queue :=
               [Switch ''useRecursion'', Command [VArr [VObj 1, VObj 2, VObj 3]],
                Switch ''useCss'']\<rparr>)
   \<and> isElementCommand [VStr ''@submitButton''] = Inr True
   \<and> getElement ex_selfn 0 (VStr ''@submitButton'') ex_state = (Inr 4, ex_state)
   \<and> getAncestorsWithElement (heap ex_state) 4 = Some [4]
   \<and> makeWrappedCommand queue_api ex_selfn 0 queue_command ''click'' False
        [VStr ''@submitButton''] ex_state =
       Some (Inr (VObj 0),
             ex_state\<lparr>client_queue :=
               [Switch ''useCss'', Command [VStr ''#submit''], Switch ''useCss'']\<rparr>)
   \<and> getElement ex_selfn 0 (VStr ''@submitButton'') ex_misnamed = (Inr 4, ex_misnamed)
   \<and> getAncestorsWithElement (heap ex_misnamed) 4 = Some [4]
   \<and> locateStrategy (heap ex_misnamed 4) = ''constructor''
   \<and> makeWrappedCommand queue_api ex_selfn 0 queue_command ''click'' False
        [VStr ''@submitButton''] ex_misnamed = Some (Inl TypeError, ex_misnamed)"
proof -
  have 1: "isElementCommand [VStr ''@button''] = Inr True" by (simp add: isElementCommand_def)
  have 2: "(if False \<and> ''click'' = ''section'' then getSection else getElement ex_selfn)
             2 (hd [VStr ''@button'']) ex_state = (Inr 3, ex_state)"
    using ex_get_button by simp
  note 3 = ex_ancestors_nested
  have a: "makeWrappedCommand queue_api ex_selfn 2 queue_command ''click'' False
        [VStr ''@button''] ex_state =
       Some (Inr (VObj 2),
             ex_state\<lparr>client_queue :=
               [Switch ''useRecursion'', Command [VArr [VObj 1, VObj 2, VObj 3]],
                Switch ''useCss'']\<rparr>)"
    using first_argument_and_strategy
            [where api = queue_api and commandFn = queue_command, OF 1 2 3]
    by (simp add: Let_def wrapCallback_def findCallbackIndex_def arr_get_def queue_command_def
          methodMap_def inherited_keys_def queue_api_def ex_state_def)
  have 4: "isElementCommand [VStr ''@submitButton''] = Inr True" by (simp add: isElementCommand_def)
  have 5: "(if False \<and> ''click'' = ''section'' then getSection else getElement ex_selfn)
             0 (hd [VStr ''@submitButton'']) ex_state = (Inr 4, ex_state)"
    using ex_get_submit by simp
  have b: "makeWrappedCommand queue_api ex_selfn 0 queue_command ''click'' False
        [VStr ''@submitButton''] ex_state =
       Some (Inr (VObj 0),
             ex_state\<lparr>client_queue :=
               [Switch ''useCss'', Command [VStr ''#submit''], Switch ''useCss'']\<rparr>)"
    using first_argument_and_strategy
            [where api = queue_api and commandFn = queue_command, OF 4 5 ex_ancestors_submit]
    by (simp add: Let_def wrapCallback_def findCallbackIndex_def arr_get_def queue_command_def
          methodMap_def inherited_keys_def queue_api_def ex_state_def ex_heap_def)
  have 6: "getElement ex_selfn 0 (VStr ''@submitButton'') ex_misnamed = (Inr 4, ex_misnamed)"
    by (simp add: getElement_def substring_from_def substring_def ex_misnamed_def ex_state_def
          ex_heap_def blank_def Let_def)
  have 7: "(if False \<and> ''click'' = ''section'' then getSection else getElement ex_selfn)
             0 (hd [VStr ''@submitButton'']) ex_misnamed = (Inr 4, ex_misnamed)"
    using 6 by simp
  have 8: "getAncestorsWithElement (heap ex_misnamed) 4 = Some [4]"
    by (simp add: getAncestorsWithElement_def addElement.simps ex_misnamed_def ex_state_def
          ex_heap_def blank_def)
  have 9: "locateStrategy (heap ex_misnamed 4) = ''constructor''"
    by (simp add: ex_misnamed_def ex_state_def)
  have c: "makeWrappedCommand queue_api ex_selfn 0 queue_command ''click'' False
        [VStr ''@submitButton''] ex_misnamed = Some (Inl TypeError, ex_misnamed)"
    using first_argument_and_strategy
            [where api = queue_api and commandFn = queue_command, OF 4 7 8]
    by (simp add: Let_def 9 inherited_keys_def)
  from 1 ex_get_button 3 a 4 ex_get_submit ex_ancestors_submit b 6 8 9 c show ?thesis by blast
qed

subsection \<open>Restoring after the call\<close>

text \<open>
  The claim C2 as stated fails in its exception: with a callback among the arguments
  the wrapper is installed (the scan finds the callback at index 1), and the restore after
  the call is made all the same. \<^verbatim>\<open>home.click('@submitButton', callback)\<close> leaves in
  the queue the switch, the command with the wrapped callback, and the restoring switch.
\<close>

theorem restore_not_skipped:
  "findCallbackIndex [VStr ''#submit'', VFun (UserFn 7)] = 1
   \<and> makeWrappedCommand queue_api ex_selfn 0 queue_command ''click'' False
        [VStr ''@submitButton'', VFun (UserFn 7)] ex_state =
      Some (Inr (VObj 0),
            ex_state\<lparr>client_queue :=
              [Switch ''useCss'',
               Command [VStr ''#submit'', VFun (CallbackWrapper ''css selector'' (UserFn 7))],
               Switch ''useCss'']\<rparr>)"
  by (simp add: ex_eval)

text \<open>
  C2, amended. Take a targeted call whose target resolves, whose desired strategy is no
  name inherited from \<^verbatim>\<open>Object.prototype\<close>, and whose underlying function returns,
  leaving the client in \<open>st2\<close>. Then the closure restores at once, on \<open>st2\<close>: when the
  strategy captured on entry is one of \<open>xpath\<close>, \<open>css selector\<close> and \<open>recursion\<close>, the
  driver's switch for it is called and the call returns; when it is an inherited name,
  the call raises a \<^verbatim>\<open>TypeError\<close>; when it is any other name, the client is left as
  the function left it. This holds whether or not a callback wrapper was installed among
  the arguments; the restore after the call is never left to the wrapper alone.
\<close>

theorem restore_after_command:
  assumes "isElementCommand args = Inr True"
    and "(if isChai \<and> commandName = ''section'' then getSection else getElement selfn)
           par (hd args) st = (Inr e, st1)"
    and "getAncestorsWithElement (heap st1) e = Some chain"
    and "desiredStrategy = (if length chain = 1 then locateStrategy (heap st1 e) else ''recursion'')"
    and "desiredStrategy \<notin> set inherited_keys"
    and "commandFn
           (wrapCallback (client_locateStrategy st)
              ((if length chain = 1 then selector (heap st1 e) else VArr (map VObj chain)) # tl args))
           (case map_of methodMap desiredStrategy of Some m \<Rightarrow> api m st1 | None \<Rightarrow> st1)
         = (Inr c, st2)"
  shows "makeWrappedCommand api selfn par commandFn commandName isChai args st =
           Some (case map_of methodMap (client_locateStrategy st) of
                   Some m \<Rightarrow> (Inr (if isChai then c else VObj par), api m st2)
                 | None \<Rightarrow>
                     if client_locateStrategy st \<in> set inherited_keys then (Inl TypeError, st2)
                     else (Inr (if isChai then c else VObj par), st2))"
proof -
  let ?prev = "client_locateStrategy st"
  let ?passed = "wrapCallback ?prev
     ((if length chain = 1 then selector (heap st1 e) else VArr (map VObj chain)) # tl args)"
  from targetArgs_resolved [where api = api and prev = ?prev, OF assms(2,3,4) refl] assms(5)
  have t: "targetArgs api selfn par commandName isChai ?prev args st =
     Some (Inr ?passed, case map_of methodMap desiredStrategy of Some m \<Rightarrow> api m st1 | None \<Rightarrow> st1)"
    by (simp split: option.splits)
  show ?thesis
    by (simp only: wrapped_targeted [OF assms(1) t] sum.case assms(6) prod.case)
qed


theorem restore_after_command_witness:
  "isElementCommand [VStr ''@submitButton'', VFun (UserFn 7)] = Inr True
   \<and> getElement ex_selfn 0 (VStr ''@submitButton'') ex_state = (Inr 4, ex_state)
   \<and> getAncestorsWithElement (heap ex_state) 4 = Some [4]
   \<and> locateStrategy (heap ex_state 4) = ''css selector''
   \<and> ''css selector'' \<notin> set inherited_keys
   \<and> queue_command [VStr ''#submit'', VFun (CallbackWrapper ''css selector'' (UserFn 7))]
        (ex_state\<lparr>client_queue := [Switch ''useCss'']\<rparr>)
       = (Inr VUndefined,
          ex_state\<lparr>client_queue := [Switch ''useCss'',
             Command [VStr ''#submit'', VFun (CallbackWrapper ''css selector'' (UserFn 7))]]\<rparr>)
   \<and> makeWrappedCommand queue_api ex_selfn 0 queue_command ''click'' False
        [VStr ''@submitButton'', VFun (UserFn 7)] ex_state =
       Some (Inr (VObj 0),
             ex_state\<lparr>client_queue := [Switch ''useCss'',
                Command [VStr ''#submit'', VFun (CallbackWrapper ''css selector'' (UserFn 7))],
                Switch ''useCss'']\<rparr>)"
proof -
  let ?args = "[VStr ''@submitButton'', VFun (UserFn 7)]"
  let ?st2 = "ex_state\<lparr>client_queue := [Switch ''useCss'',
             Command [VStr ''#submit'', VFun (CallbackWrapper ''css selector'' (UserFn 7))]]\<rparr>"
  have 1: "isElementCommand ?args = Inr True" by (simp add: isElementCommand_def)
  have 2: "(if False \<and> ''click'' = ''section'' then getSection else getElement ex_selfn)
             0 (hd ?args) ex_state = (Inr 4, ex_state)"
    using ex_get_submit by simp
  have 3: "getAncestorsWithElement (heap ex_state) 4 = Some [4]" by (rule ex_ancestors_submit)
  have s: "locateStrategy (heap ex_state 4) = ''css selector''"
    by (simp add: ex_state_def ex_heap_def)
  have d: "''css selector'' = (if length [4::nat] = 1 then locateStrategy (heap ex_state 4)
                               else ''recursion'')"
    using s by simp
  have ni: "''css selector'' \<notin> set inherited_keys" by (simp add: inherited_keys_def)
  have 4: "queue_command [VStr ''#submit'', VFun (CallbackWrapper ''css selector'' (UserFn 7))]
        (ex_state\<lparr>client_queue := [Switch ''useCss'']\<rparr>) = (Inr VUndefined, ?st2)"
    by (simp add: queue_command_def ex_state_def)
  have cmd: "queue_command
           (wrapCallback (client_locateStrategy ex_state)
              ((if length [4::nat] = 1 then selector (heap ex_state 4) else VArr (map VObj [4])) # tl ?args))
           (case map_of methodMap ''css selector'' of
              Some m \<Rightarrow> queue_api m ex_state | None \<Rightarrow> ex_state)
         = (Inr VUndefined, ?st2)"
    by (simp add: queue_command_def wrapCallback_def findCallbackIndex_def arr_get_def
          methodMap_def queue_api_def ex_state_def ex_heap_def)
  from restore_after_command
         [where api = queue_api and commandFn = queue_command, OF 1 2 3 d ni cmd]
  have 5: "makeWrappedCommand queue_api ex_selfn 0 queue_command ''click'' False ?args ex_state =
       Some (Inr (VObj 0),
             ex_state\<lparr>client_queue := [Switch ''useCss'',
                Command [VStr ''#submit'', VFun (CallbackWrapper ''css selector'' (UserFn 7))],
                Switch ''useCss'']\<rparr>)"
    by (simp add: methodMap_def queue_api_def ex_state_def)
  from 1 ex_get_submit 3 s ni 4 5 show ?thesis by blast
qed

subsection \<open>The strategy once the queue has run\<close>

lemma call_fn_queue:
  "quiet env \<Longrightarrow> client_queue (snd (call_fn env f as st)) = client_queue st"
  by (induction f arbitrary: st) (simp_all add: quiet_def)

lemma run_queued_queue:
  "quiet env \<Longrightarrow> client_queue (run_queued env item st) = client_queue st"
  by (cases item) (auto simp: call_fn_queue split: option.splits val.splits)

text \<open>When callbacks can only add to the queue, so can a queued entry that is run.\<close>

lemma call_fn_appends:
  "appending env \<Longrightarrow> \<exists>new. client_queue (snd (call_fn env f as st)) = client_queue st @ new"
proof (induction f arbitrary: st)
  case (UserFn k)
  then show ?case by (simp add: appending_def)
next
  case (CallbackWrapper p f)
  from CallbackWrapper.IH [OF CallbackWrapper.prems, of "st\<lparr>client_locateStrategy := p\<rparr>"]
  show ?case by simp
qed

lemma run_queued_appends:
  assumes "appending env"
  shows "\<exists>new. client_queue (run_queued env item st) = client_queue st @ new"
proof (cases item)
  case (Switch m)
  then show ?thesis by (simp split: option.splits)
next
  case (Command args)
  show ?thesis
  proof (cases "arr_get args (findCallbackIndex args)")
    case (VFun f)
    with Command call_fn_appends [OF assms, of f "[]" st] show ?thesis by simp
  qed (simp_all add: Command)
qed

lemma method_roundtrip:
  "map_of methodMap s = Some m \<Longrightarrow> map_of (map prod.swap methodMap) m = Some s"
  by (auto simp: methodMap_def split: if_splits)

text \<open>A queue that ends with a switch runs to its end, and ends in the strategy of
  that switch; induction on what is queued before it.\<close>

lemma drain_switch_last:
  assumes "quiet env" and "map_of (map prod.swap methodMap) m = Some s"
  shows "client_queue st = q @ [Switch m] \<Longrightarrow>
         \<exists>st'. drain env st = Some st' \<and> client_locateStrategy st' = s"
proof (induction q arbitrary: st)
  case Nil
  then have "drain env st = drain env (st\<lparr>client_queue := [], client_locateStrategy := s\<rparr>)"
    using assms(2) by (subst drain.simps) simp
  also have "\<dots> = Some (st\<lparr>client_queue := [], client_locateStrategy := s\<rparr>)"
    by (subst drain.simps) simp
  finally show ?case by simp
next
  case (Cons item q)
  let ?st = "run_queued env item (st\<lparr>client_queue := q @ [Switch m]\<rparr>)"
  have "client_queue ?st = q @ [Switch m]"
    using run_queued_queue [OF assms(1)] by simp
  from Cons.IH [OF this] obtain st' where
    "drain env ?st = Some st'" "client_locateStrategy st' = s" by blast
  moreover have "drain env st = drain env ?st"
    using Cons.prems by (subst drain.simps) simp
  ultimately show ?case by simp
qed

text \<open>Once the entries up to a switch have run, the strategy is that of the switch,
  whatever the callbacks before it did to the strategy and added to the queue.\<close>

lemma run_front_switch:
  assumes "appending env" and "map_of (map prod.swap methodMap) m = Some s"
  shows "client_queue st = q @ Switch m # later \<Longrightarrow>
         client_locateStrategy (run_front (Suc (length q)) env st) = s"
proof (induction q arbitrary: st later)
  case Nil
  then show ?case using assms(2) by simp
next
  case (Cons item q)
  let ?st = "run_queued env item (st\<lparr>client_queue := q @ Switch m # later\<rparr>)"
  from run_queued_appends [OF assms(1), of item "st\<lparr>client_queue := q @ Switch m # later\<rparr>"]
  obtain new where "client_queue ?st = q @ Switch m # (later @ new)" by auto
  from Cons.IH [OF this] have "client_locateStrategy (run_front (Suc (length q)) env ?st) = s" .
  moreover have "run_front (Suc (length (item # q))) env st = run_front (Suc (length q)) env ?st"
    using Cons.prems by simp
  ultimately show ?case by simp
qed

text \<open>Resolving the target and queueing the switch leave \<^verbatim>\<open>client.locateStrategy\<close>
  as it is.\<close>

lemma targetArgs_strategy:
  assumes "targetArgs queue_api selfn par commandName isChai prev args st = Some (r, st1)"
  shows "client_locateStrategy st1 = client_locateStrategy st"
proof -
  have s: "\<And>d s r s'. setLocateStrategy queue_api d s = (r, s')
             \<Longrightarrow> client_locateStrategy s' = client_locateStrategy s"
    by (auto simp: setLocateStrategy_def queue_api_def split: option.splits if_splits)
  have e: "\<And>x s r s'. getElement selfn par x s = (r, s')
             \<Longrightarrow> client_locateStrategy s' = client_locateStrategy s"
    by (auto simp: getElement_def convertSelector_def Object_create_def Let_def
             split: val.splits option.splits if_splits)
  have g: "\<And>x s r s'. getSection par x s = (r, s')
             \<Longrightarrow> client_locateStrategy s' = client_locateStrategy s"
    by (auto simp: getSection_def Let_def split: val.splits option.splits if_splits)
  show ?thesis
    using assms
    by (auto simp: targetArgs_def Let_def dest: e g dest!: s
             split: prod.splits sum.splits option.splits if_splits)
qed

text \<open>
  The claim C1 as stated fails for a call that does not return and for a captured
  strategy that has no switch. The closure has no \<^verbatim>\<open>try\<close>: when the underlying
  function raises, the switch to \<open>recursion\<close> is in the queue and the switch back is
  never queued, so the driver ends in \<open>recursion\<close>, not in \<open>css selector\<close>. And
  \<open>setLocateStrategy\<close> knows three names: with \<open>link text\<close> captured, the call queues the
  switch to \<open>recursion\<close> and the command and nothing after them, and the driver ends in
  \<open>recursion\<close> again.
\<close>

theorem strategy_not_restored:
  "makeWrappedCommand queue_api ex_selfn 2 ex_raising ''click'' False [VStr ''@button''] ex_state
     = Some (Inl (Error ''no session''), ex_state\<lparr>client_queue := [Switch ''useRecursion'']\<rparr>)
   \<and> drain ex_env (ex_state\<lparr>client_queue := [Switch ''useRecursion'']\<rparr>)
     = Some (ex_state\<lparr>client_locateStrategy := ''recursion''\<rparr>)
   \<and> client_locateStrategy ex_state = ''css selector''
   \<and> makeWrappedCommand queue_api ex_selfn 2 queue_command ''click'' False [VStr ''@button'']
        (ex_state\<lparr>client_locateStrategy := ''link text''\<rparr>)
     = Some (Inr (VObj 2),
             ex_state\<lparr>client_locateStrategy := ''link text'',
                      client_queue := [Switch ''useRecursion'',
                                       Command [VArr [VObj 1, VObj 2, VObj 3]]]\<rparr>)
   \<and> drain ex_env
        (ex_state\<lparr>client_locateStrategy := ''link text'',
                  client_queue := [Switch ''useRecursion'',
                                   Command [VArr [VObj 1, VObj 2, VObj 3]]]\<rparr>)
     = Some (ex_state\<lparr>client_locateStrategy := ''recursion''\<rparr>)"
proof -
  have 1: "makeWrappedCommand queue_api ex_selfn 2 ex_raising ''click'' False [VStr ''@button''] ex_state
     = Some (Inl (Error ''no session''), ex_state\<lparr>client_queue := [Switch ''useRecursion'']\<rparr>)"
    by (simp add: ex_eval ex_raising_def)
  have 2: "drain ex_env (ex_state\<lparr>client_queue := [Switch ''useRecursion'']\<rparr>)
     = Some (ex_state\<lparr>client_locateStrategy := ''recursion''\<rparr>)"
    by (simp add: drain.simps methodMap_def ex_state_def)
  have 3: "client_locateStrategy ex_state = ''css selector''" by (simp add: ex_state_def)
  have 4: "makeWrappedCommand queue_api ex_selfn 2 queue_command ''click'' False [VStr ''@button'']
        (ex_state\<lparr>client_locateStrategy := ''link text''\<rparr>)
     = Some (Inr (VObj 2),
             ex_state\<lparr>client_locateStrategy := ''link text'',
                      client_queue := [Switch ''useRecursion'',
                                       Command [VArr [VObj 1, VObj 2, VObj 3]]]\<rparr>)"
    by (simp add: ex_eval)
  have 5: "drain ex_env
        (ex_state\<lparr>client_locateStrategy := ''link text'',
                  client_queue := [Switch ''useRecursion'',
                                   Command [VArr [VObj 1, VObj 2, VObj 3]]]\<rparr>)
     = Some (ex_state\<lparr>client_locateStrategy := ''recursion''\<rparr>)"
    by (simp add: drain.simps methodMap_def findCallbackIndex_def arr_get_def ex_state_def)
  from 1 2 3 4 5 show ?thesis by blast
qed

text \<open>
  C1, amended. The driver is the queue modelled from the spec, and a callback can only
  add to the queue. Let a targeted call return, from a client whose locate strategy is
  one of \<open>xpath\<close>, \<open>css selector\<close> and \<open>recursion\<close>, whatever the underlying function
  is. Then the last entry the call has queued is the switch back: once the driver has
  run all that was queued when the call returned, callbacks included, the locate strategy
  is the one captured before the call; and when the callbacks leave strategy and queue
  alone, the driver runs the queue to its end and ends in the captured strategy. The
  underlying function was entered with \<^verbatim>\<open>client.locateStrategy\<close> still the captured
  one, and with as many arguments as the caller gave. A function the caller passed in
  last position, or in the position before a last argument that is no function, has been
  replaced there by the wrapper around it: in whatever state the driver calls the
  wrapper, the caller's callback runs in that state with the locate strategy set to the
  captured one.
\<close>

theorem strategy_restored:
  assumes "appending env"
    and "isElementCommand args = Inr True"
    and "makeWrappedCommand queue_api selfn par commandFn commandName isChai args st
           = Some (Inr v, st')"
    and "map_of methodMap (client_locateStrategy st) = Some m"
  shows "client_locateStrategy (run_front (length (client_queue st')) env st')
           = client_locateStrategy st
         \<and> (quiet env \<longrightarrow>
               (\<exists>st''. drain env st' = Some st''
                    \<and> client_locateStrategy st'' = client_locateStrategy st))
         \<and> (\<exists>args' st1 c st2.
               targetArgs queue_api selfn par commandName isChai (client_locateStrategy st) args st
                 = Some (Inr args', st1)
             \<and> client_locateStrategy st1 = client_locateStrategy st
             \<and> commandFn args' st1 = (Inr c, st2)
             \<and> st' = st2\<lparr>client_queue := client_queue st2 @ [Switch m]\<rparr>
             \<and> length args' = length args
             \<and> (\<forall>f. last args = VFun f \<longrightarrow>
                    last args' = VFun (CallbackWrapper (client_locateStrategy st) f))
             \<and> (\<forall>f. \<not> is_function (last args) \<and> args ! (length args - 2) = VFun f \<longrightarrow>
                    args' ! (length args - 2) = VFun (CallbackWrapper (client_locateStrategy st) f)))
         \<and> (\<forall>f as s. call_fn env (CallbackWrapper (client_locateStrategy st) f) as s =
                     call_fn env f as (s\<lparr>client_locateStrategy := client_locateStrategy st\<rparr>))"
proof -
  let ?prev = "client_locateStrategy st"
  from wrapped_returns [OF assms(2,3,4)] obtain args' st1 c st2 where
    t: "targetArgs queue_api selfn par commandName isChai ?prev args st = Some (Inr args', st1)"
    and c: "commandFn args' st1 = (Inr c, st2)"
    and st': "st' = queue_api m st2"
    by blast
  have q: "client_queue st' = client_queue st2 @ Switch m # []"
    by (simp add: st' queue_api_def)
  have len: "length (client_queue st') = Suc (length (client_queue st2))"
    by (simp add: q)
  have a: "client_locateStrategy (run_front (length (client_queue st')) env st') = ?prev"
    unfolding len
    by (rule run_front_switch [OF assms(1) method_roundtrip [OF assms(4)] q])
  have b: "\<exists>st''. drain env st' = Some st'' \<and> client_locateStrategy st'' = ?prev"
    if "quiet env"
    using drain_switch_last [OF that method_roundtrip [OF assms(4)], of st' "client_queue st2"] q
    by simp
  from sigil_not_function [OF assms(2)] obtain x rest where
    x: "args = x # rest" "\<not> is_function x" by blast
  from targetArgs_shape [OF t] obtain firstArg where
    w: "args' = wrapCallback ?prev (firstArg # rest)" by (auto simp: x)
  have l: "length args' = length args" by (simp add: w x)
  have cb1: "last args' = VFun (CallbackWrapper ?prev f)"
    if "last args = VFun f" for f
  proof -
    have "rest \<noteq> []" using that x by (cases rest) auto
    then have "last (firstArg # rest) = VFun f" using that x by simp
    from wrapCallback_last [OF _ this, of ?prev] show ?thesis by (simp add: w)
  qed
  have cb2: "args' ! (length args - 2) = VFun (CallbackWrapper ?prev f)"
    if "\<not> is_function (last args)" "args ! (length args - 2) = VFun f" for f
  proof -
    have "length args - 2 \<noteq> 0" using that(2) x by (cases "length args - 2") auto
    then have "2 \<le> length rest" using x by simp
    then obtain k where k: "length rest = Suc (Suc k)"
      by (metis add_2_eq_Suc le_Suc_ex)
    have r: "rest \<noteq> []" using k by auto
    have 1: "2 \<le> length (firstArg # rest)" using k by simp
    have 2: "\<not> is_function (last (firstArg # rest))" using that(1) x r by simp
    have 3: "(firstArg # rest) ! (length (firstArg # rest) - 2) = VFun f"
      using that(2) k x by simp
    from wrapCallback_before_last [OF 1 2 3, of ?prev] show ?thesis
      by (simp add: w x)
  qed
  have d: "st' = st2\<lparr>client_queue := client_queue st2 @ [Switch m]\<rparr>"
    by (simp add: st' queue_api_def)
  have e: "\<exists>args' st1 c st2.
               targetArgs queue_api selfn par commandName isChai ?prev args st
                 = Some (Inr args', st1)
             \<and> client_locateStrategy st1 = ?prev
             \<and> commandFn args' st1 = (Inr c, st2)
             \<and> st' = st2\<lparr>client_queue := client_queue st2 @ [Switch m]\<rparr>
             \<and> length args' = length args
             \<and> (\<forall>f. last args = VFun f \<longrightarrow>
                    last args' = VFun (CallbackWrapper ?prev f))
             \<and> (\<forall>f. \<not> is_function (last args) \<and> args ! (length args - 2) = VFun f \<longrightarrow>
                    args' ! (length args - 2) = VFun (CallbackWrapper ?prev f))"
    using t targetArgs_strategy [OF t] c d l cb1 cb2 by blast
  have f: "\<forall>f as s. call_fn env (CallbackWrapper ?prev f) as s =
                     call_fn env f as (s\<lparr>client_locateStrategy := ?prev\<rparr>)"
    by simp
  from a b e f show ?thesis by blast
qed

text \<open>
  The call on the inner section, with the callback before a trailing message: the
  callback reports \<open>css selector\<close>, the strategy before the call, not \<open>recursion\<close>,
  also when it queues a further command.
\<close>

theorem strategy_restored_witness:
  "appending ex_queueing
   \<and> quiet ex_env
   \<and> isElementCommand ex_args = Inr True
   \<and> makeWrappedCommand queue_api ex_selfn 2 queue_command ''waitForElementVisible'' False
        ex_args ex_state = Some (Inr (VObj 2), ex_queued)
   \<and> map_of methodMap (client_locateStrategy ex_state) = Some ''useCss''
   \<and> client_locateStrategy (run_front (length (client_queue ex_queued)) ex_queueing ex_queued)
       = client_locateStrategy ex_state
   \<and> run_front 3 ex_queueing ex_queued
       = ex_state\<lparr>client_errors := [''css selector''],
                  client_queue := [Command [VStr ''body'']]\<rparr>
   \<and> (\<exists>st''. drain ex_env ex_queued = Some st''
         \<and> client_locateStrategy st'' = client_locateStrategy ex_state)
   \<and> drain ex_env ex_queued = Some (ex_state\<lparr>client_errors := [''css selector'']\<rparr>)"
proof -
  have 0: "appending ex_queueing" by (simp add: appending_def ex_queueing_def)
  have q: "quiet ex_env" by (simp add: quiet_def ex_env_def)
  then have 1: "appending ex_env" by (simp add: quiet_def appending_def)
  have 2: "isElementCommand ex_args = Inr True"
    by (simp add: isElementCommand_def ex_args_def)
  have 3: "makeWrappedCommand queue_api ex_selfn 2 queue_command ''waitForElementVisible'' False
        ex_args ex_state = Some (Inr (VObj 2), ex_queued)"
    unfolding ex_args_def ex_queued_def by (simp add: ex_eval)
  have 4: "map_of methodMap (client_locateStrategy ex_state) = Some ''useCss''"
    by (simp add: methodMap_def ex_state_def)
  have 5: "drain ex_env ex_queued = Some (ex_state\<lparr>client_errors := [''css selector'']\<rparr>)"
    unfolding ex_queued_def
    by (simp add: drain.simps methodMap_def findCallbackIndex_def arr_get_def ex_env_def ex_state_def)
  have 6: "run_front 3 ex_queueing ex_queued
       = ex_state\<lparr>client_errors := [''css selector''],
                  client_queue := [Command [VStr ''body'']]\<rparr>"
    unfolding ex_queued_def
    by (simp add: numeral_3_eq_3 methodMap_def findCallbackIndex_def arr_get_def
          ex_queueing_def ex_state_def)
  from strategy_restored [OF 0 2 3 4]
  have 7: "client_locateStrategy (run_front (length (client_queue ex_queued)) ex_queueing ex_queued)
       = client_locateStrategy ex_state"
    by blast
  from strategy_restored [OF 1 2 3 4] q
  have 8: "\<exists>st''. drain ex_env ex_queued = Some st''
         \<and> client_locateStrategy st'' = client_locateStrategy ex_state"
    by blast
  from 0 q 2 3 4 5 6 7 8 show ?thesis by blast
qed

section \<open>Registering twice\<close>

lemma addCommand_occupied:
  assumes "target_get st target commandName \<noteq> None"
  shows "addCommand target commandFn commandName par isChai st =
           (Inl (Error (duplicate_message commandName)),
            record_failure (duplicate_message commandName) st)"
  using assms by (simp add: addCommand_def duplicate_message_def record_failure_def Let_def)

lemma target_get_record_failure:
  "target_get (record_failure message st) target n = target_get st target n"
  by (cases target) (simp_all add: record_failure_def)

text \<open>
  C8. When the slot for the command name on the target (the page or section, or the object
  under one of its assertion keywords) is occupied, \<open>addCommand\<close> raises the error
  "The command ... is already defined!". The state that comes with the error has the
  client's error counter raised by one and the error's stack pushed onto the client's
  error log; its store is the one before, so the slot still holds what was registered
  first. The loops of \<open>applyCommandsToTarget\<close> stop with that error and that state when
  they come to such a name.
\<close>

theorem duplicate_command_rejected:
  assumes "target_get st target commandName \<noteq> None"
  shows "addCommand target commandFn commandName par isChai st =
           (Inl (Error (duplicate_message commandName)),
            record_failure (duplicate_message commandName) st)
       \<and> heap (record_failure (duplicate_message commandName) st) = heap st
       \<and> target_get (record_failure (duplicate_message commandName) st) target commandName
           = target_get st target commandName
       \<and> client_results_errors (record_failure (duplicate_message commandName) st)
           = client_results_errors st + 1
       \<and> client_errors (record_failure (duplicate_message commandName) st)
           = client_errors st @ [error_stack (duplicate_message commandName)]
       \<and> (\<forall>a rest. target = TObj a \<and> \<not> isValidAssertion commandName \<longrightarrow>
             applyCommandsToTarget par a ((commandName, commandFn) # rest) st =
               (Inl (Error (duplicate_message commandName)),
                record_failure (duplicate_message commandName) st))
       \<and> (\<forall>a keyword f rest. target = TNs a keyword \<longrightarrow>
             addAssertions par a keyword isChai ((commandName, f) # rest) st =
               (Inl (Error (duplicate_message commandName)),
                record_failure (duplicate_message commandName) st))"
proof -
  note occ = addCommand_occupied [OF assms]
  have "applyCommandsToTarget par a ((commandName, commandFn) # rest) st =
          (Inl (Error (duplicate_message commandName)),
           record_failure (duplicate_message commandName) st)"
    if "target = TObj a" "\<not> isValidAssertion commandName" for a rest
    using that occ [of commandFn par False] by simp
  moreover have "addAssertions par a keyword isChai ((commandName, f) # rest) st =
          (Inl (Error (duplicate_message commandName)),
           record_failure (duplicate_message commandName) st)"
    if "target = TNs a keyword" for a keyword f rest
    using that occ [of "EFn f" par isChai] by simp
  ultimately show ?thesis
    using occ [of commandFn par isChai]
    by (simp add: target_get_record_failure) (simp add: record_failure_def)
qed

lemma ex_registered_eq:
  "ex_registered =
     ex_state\<lparr>heap := ex_heap(0 := (ex_heap 0)\<lparr>slots :=
                  [(''click'', Slot (Some (Wrapped 0 (EFn 0) ''click'' False)) [])]\<rparr>)\<rparr>"
  by (simp add: ex_registered_def addWrappedCommands_def addCommand_def isValidAssertion_def
        ex_state_def ex_heap_def blank_def)

text \<open>Registering \<open>click\<close> on the page \<open>home\<close>, and then once more.\<close>

theorem duplicate_command_rejected_witness:
  "addWrappedCommands 0 (\<lambda>commands. [(''click'', EFn 0)]) ex_state = (Inr (), ex_registered)
   \<and> target_get ex_registered (TObj 0) ''click''
       = Some (Slot (Some (Wrapped 0 (EFn 0) ''click'' False)) [])
   \<and> addWrappedCommands 0 (\<lambda>commands. [(''click'', EFn 1)]) ex_registered =
       (Inl (Error ''The command \"click\" is already defined!''),
        ex_registered\<lparr>client_results_errors := 1,
                       client_errors := [''Error: The command \"click\" is already defined!'']\<rparr>)
   \<and> target_get
        (snd (addWrappedCommands 0 (\<lambda>commands. [(''click'', EFn 1)]) ex_registered))
        (TObj 0) ''click''
       = Some (Slot (Some (Wrapped 0 (EFn 0) ''click'' False)) [])"
proof -
  have first: "addWrappedCommands 0 (\<lambda>commands. [(''click'', EFn 0)]) ex_state = (Inr (), ex_registered)"
    by (simp add: ex_registered_def addWrappedCommands_def addCommand_def isValidAssertion_def
          ex_state_def ex_heap_def blank_def)
  have slot: "target_get ex_registered (TObj 0) ''click''
       = Some (Slot (Some (Wrapped 0 (EFn 0) ''click'' False)) [])"
    by (simp add: ex_registered_eq)
  then have occ: "target_get ex_registered (TObj 0) ''click'' \<noteq> None" by simp
  have na: "\<not> isValidAssertion ''click''" by (simp add: isValidAssertion_def)
  have rf: "record_failure ''The command \"click\" is already defined!'' ex_registered =
        ex_registered\<lparr>client_results_errors := 1,
                       client_errors := [''Error: The command \"click\" is already defined!'']\<rparr>"
    by (simp add: record_failure_def duplicate_message_def error_stack_def ex_registered_eq ex_state_def)
  from duplicate_command_rejected [OF occ, of "EFn 1" 0 False] na
  have second: "applyCommandsToTarget 0 0 [(''click'', EFn 1)] ex_registered =
          (Inl (Error (duplicate_message ''click'')),
           record_failure (duplicate_message ''click'') ex_registered)"
    by blast
  have dm: "duplicate_message ''click'' = ''The command \"click\" is already defined!''"
    by (simp add: duplicate_message_def)
  have again: "addWrappedCommands 0 (\<lambda>commands. [(''click'', EFn 1)]) ex_registered =
       (Inl (Error ''The command \"click\" is already defined!''),
        ex_registered\<lparr>client_results_errors := 1,
                       client_errors := [''Error: The command \"click\" is already defined!'']\<rparr>)"
    by (simp only: addWrappedCommands_def Let_def second dm rf)
  have kept: "target_get
        (snd (addWrappedCommands 0 (\<lambda>commands. [(''click'', EFn 1)]) ex_registered))
        (TObj 0) ''click''
       = Some (Slot (Some (Wrapped 0 (EFn 0) ''click'' False)) [])"
    unfolding again using slot by simp
  from first slot again kept show ?thesis by blast
qed

end
